theory Spec2Isabelle
  imports Complex_Main
begin

section \<open>Error taxonomy (utils/errors.py)\<close>

text \<open>
  The exception classes of \<^verbatim>\<open>utils/errors.py\<close>. A value of \<open>py_exception\<close> is an instance
  of Python's \<^verbatim>\<open>Exception\<close>, the type that \<^verbatim>\<open>is_retryable\<close> and \<^verbatim>\<open>classify_error\<close> declare
  for their argument and that the engine's handler \<^verbatim>\<open>except Exception\<close> catches. The class
  is the one \<^verbatim>\<open>isinstance\<close> resolves to: one of the eleven taxonomy classes, their common
  base \<^verbatim>\<open>DocAgentLineError\<close>, or any other class (\<^verbatim>\<open>KeyError\<close>, \<^verbatim>\<open>ValueError\<close>, ...), named.
  \<open>exc_str\<close> is the text \<^verbatim>\<open>str(e)\<close>.
\<close>

datatype exc_class =
    DocAgentLineError
  | TransientExternalError
  | ModelOutputError
  | SchemaValidationError
  | PipelineStateError
  | StorageError
  | ConfigurationError
  | SchemaRegistryError
  | IngestionError
  | ExtractionError
  | ChunkingError
  | EmbeddingError
  | OtherException string

datatype py_exception = PyExc (exc_cls: exc_class) (exc_str: string)

definition is_retryable :: "py_exception \<Rightarrow> bool" where
  "is_retryable error = (exc_cls error = TransientExternalError)"

definition classify_error :: "py_exception \<Rightarrow> string" where
  "classify_error error =
     (if exc_cls error = TransientExternalError then ''transient_external''
      else if exc_cls error = ModelOutputError then ''model_output''
      else if exc_cls error = SchemaValidationError then ''schema_validation''
      else if exc_cls error = PipelineStateError then ''pipeline_state''
      else if exc_cls error = StorageError then ''storage''
      else if exc_cls error = ConfigurationError then ''configuration''
      else if exc_cls error = SchemaRegistryError then ''schema_registry''
      else if exc_cls error = IngestionError then ''ingestion''
      else if exc_cls error = ExtractionError then ''extraction''
      else if exc_cls error = ChunkingError then ''chunking''
      else if exc_cls error = EmbeddingError then ''embedding''
      else ''unknown'')"

text \<open>The eleven named classes of the taxonomy (the base class is not one of them).\<close>

definition taxonomy_classes :: "exc_class list" where
  "taxonomy_classes =
     [TransientExternalError, ModelOutputError, SchemaValidationError, PipelineStateError,
      StorageError, ConfigurationError, SchemaRegistryError, IngestionError,
      ExtractionError, ChunkingError, EmbeddingError]"

section \<open>The store (db/models.py)\<close>

text \<open>
  The tables the engine and the submission route read and write, as lists of rows in
  insertion order. Timestamps and latencies are clock readings and are left out. The
  field \<open>other\<close> stands for everything else a stage can read and write: the chunk,
  embedding and extraction tables and the state of the external services.
\<close>

record document_row =
  doc_id :: nat
  doc_source :: string
  doc_content_hash :: string
  doc_schema_version :: string
  doc_status :: string
  doc_file_size_bytes :: nat
  doc_mime_type :: string

record raw_content_row =
  rc_document_id :: nat
  rc_content :: string
  rc_is_hashed :: bool

record run_row =
  run_id :: nat
  run_document_id :: nat
  run_stage :: string
  run_status :: string
  run_attempt :: nat
  run_error_type :: "string option"
  run_error_message :: "string option"
  run_correlation_id :: "string option"

record metric_row =
  metric_run_id :: nat
  metric_stage :: string

record 'x store =
  documents :: "document_row list"
  raw_content :: "raw_content_row list"
  pipeline_runs :: "run_row list"
  metrics :: "metric_row list"
  other :: 'x

text \<open>An autoincrement primary key: one more than the largest key in the table.\<close>

definition next_key :: "nat list \<Rightarrow> nat" where
  "next_key ks = Suc (foldr max ks 0)"

section \<open>Pipeline engine (pipeline/engine.py, pipeline/registry.py)\<close>

text \<open>
  A stage is \<^verbatim>\<open>execute(document_id)\<close>: it reads and writes the store and either returns
  (\<open>None\<close>) or raises (\<open>Some e\<close>). The registry is the dict \<^verbatim>\<open>_stages\<close>.
\<close>

type_synonym 'x stage = "nat \<Rightarrow> 'x store \<Rightarrow> py_exception option \<times> 'x store"

type_synonym 'x registry = "string \<rightharpoonup> 'x stage"

definition get_ordered_stages :: "string list" where
  "get_ordered_stages =
     [''ingest'', ''text_extraction'', ''layout_normalization'', ''chunking'', ''embedding'',
      ''structured_extraction'', ''validation'', ''persistence'', ''metrics_and_audit'']"

text \<open>
  The engine's settings. Python floats are taken as reals. \<open>random_random i\<close> is the value
  the \<open>i\<close>-th call of \<^verbatim>\<open>random.random()\<close> returns.
\<close>

record engine =
  max_retries :: nat
  backoff_base :: real
  backoff_max :: real
  use_jitter :: bool
  random_random :: "nat \<Rightarrow> real"

text \<open>
  What the engine acts on: the store, the durations passed to \<^verbatim>\<open>asyncio.sleep\<close> so far,
  the calls of \<^verbatim>\<open>stage.execute\<close> made so far, and the number of random samples drawn.
\<close>

record 'x world =
  store :: "'x store"
  slept :: "real list"
  invoked :: "(string \<times> nat) list"
  draws :: nat

definition is_stage_completed :: "nat \<Rightarrow> string \<Rightarrow> 'x world \<Rightarrow> bool" where
  "is_stage_completed document_id stage_name w =
     (find (\<lambda>r. run_document_id r = document_id \<and> run_stage r = stage_name
                 \<and> run_status r = ''completed'') (pipeline_runs (store w)) \<noteq> None)"

definition create_run_record ::
  "nat \<Rightarrow> string \<Rightarrow> nat \<Rightarrow> string option \<Rightarrow> 'x world \<Rightarrow> nat \<times> 'x world" where
  "create_run_record document_id stage_name attempt correlation_id w =
     (let rid = next_key (map run_id (pipeline_runs (store w)));
          row = \<lparr>run_id = rid, run_document_id = document_id, run_stage = stage_name,
                 run_status = ''running'', run_attempt = attempt, run_error_type = None,
                 run_error_message = None, run_correlation_id = correlation_id\<rparr>
      in (rid, w\<lparr>store := (store w)\<lparr>pipeline_runs := pipeline_runs (store w) @ [row]\<rparr>\<rparr>))"

definition get_run_stage :: "'x store \<Rightarrow> nat \<Rightarrow> string" where
  "get_run_stage s rid =
     (case find (\<lambda>r. run_id r = rid) (pipeline_runs s) of
        Some r \<Rightarrow> run_stage r | None \<Rightarrow> ''unknown'')"

definition complete_run_record :: "nat \<Rightarrow> 'x world \<Rightarrow> 'x world" where
  "complete_run_record rid w =
     (let s1 = (store w)\<lparr>pipeline_runs :=
                  map (\<lambda>r. if run_id r = rid then r\<lparr>run_status := ''completed''\<rparr> else r)
                      (pipeline_runs (store w))\<rparr>;
          s2 = s1\<lparr>metrics := metrics s1 @
                  [\<lparr>metric_run_id = rid, metric_stage = get_run_stage s1 rid\<rparr>]\<rparr>
      in w\<lparr>store := s2\<rparr>)"

definition fail_run_record :: "nat \<Rightarrow> string \<Rightarrow> string \<Rightarrow> 'x world \<Rightarrow> 'x world" where
  "fail_run_record rid error_type error_message w =
     (let s1 = (store w)\<lparr>pipeline_runs :=
                  map (\<lambda>r. if run_id r = rid
                            then r\<lparr>run_status := ''failed'', run_error_type := Some error_type,
                                   run_error_message := Some (take 1000 error_message)\<rparr>
                            else r)
                      (pipeline_runs (store w))\<rparr>;
          s2 = s1\<lparr>metrics := metrics s1 @
                  [\<lparr>metric_run_id = rid, metric_stage = get_run_stage s1 rid\<rparr>]\<rparr>
      in w\<lparr>store := s2\<rparr>)"

text \<open>\<^verbatim>\<open>await stage.execute(document_id)\<close>\<close>

definition invoke :: "'x stage \<Rightarrow> string \<Rightarrow> nat \<Rightarrow> 'x world \<Rightarrow> py_exception option \<times> 'x world" where
  "invoke stage stage_name document_id w =
     (let r = stage document_id (store w)
      in (fst r, w\<lparr>store := snd r, invoked := invoked w @ [(stage_name, document_id)]\<rparr>))"

text \<open>\<^verbatim>\<open>backoff * (0.5 + random.random())\<close>\<close>

definition jitter :: "engine \<Rightarrow> real \<Rightarrow> 'x world \<Rightarrow> real \<times> 'x world" where
  "jitter eng backoff w =
     (backoff * (0.5 + random_random eng (draws w)), w\<lparr>draws := Suc (draws w)\<rparr>)"

definition sleep :: "real \<Rightarrow> 'x world \<Rightarrow> 'x world" where
  "sleep backoff w = w\<lparr>slept := slept w @ [backoff]\<rparr>"

text \<open>The backoff computed after a failed attempt, and the world after sleeping for it.\<close>

definition back_off :: "engine \<Rightarrow> nat \<Rightarrow> 'x world \<Rightarrow> 'x world" where
  "back_off eng attempt w =
     (let backoff = min (backoff_base eng ^ (attempt - 1)) (backoff_max eng);
          jb = (if use_jitter eng then jitter eng backoff w else (backoff, w))
      in sleep (fst jb) (snd jb))"

function execute_stage_with_retry ::
  "engine \<Rightarrow> nat \<Rightarrow> string \<Rightarrow> 'x stage \<Rightarrow> string option \<Rightarrow> nat \<Rightarrow> 'x world
     \<Rightarrow> (py_exception + string) \<times> 'x world" where
  "execute_stage_with_retry eng document_id stage_name stage correlation_id attempt w =
     (if attempt \<le> max_retries eng + 1 then
        (let cr = create_run_record document_id stage_name attempt correlation_id w;
             ex = invoke stage stage_name document_id (snd cr)
         in case fst ex of
              None \<Rightarrow> (Inr ''completed'', complete_run_record (fst cr) (snd ex))
            | Some e \<Rightarrow>
                (let w3 = fail_run_record (fst cr) (classify_error e) (exc_str e) (snd ex)
                 in if \<not> is_retryable e then (Inl e, w3)
                    else if attempt > max_retries eng then (Inl e, w3)
                    else execute_stage_with_retry eng document_id stage_name stage
                           correlation_id (attempt + 1) (back_off eng attempt w3)))
      else (Inl (PyExc PipelineStateError ''Unexpected retry loop exit''), w))"
  by pat_completeness auto
termination
  by (relation "measure (\<lambda>(eng, d, n, st, c, attempt, w). max_retries eng + 1 - attempt)") auto

declare execute_stage_with_retry.simps [simp del]

text \<open>
  The loop of \<^verbatim>\<open>execute_pipeline\<close> over the ordered stage names. \<^verbatim>\<open>get_stage\<close> raises
  \<^verbatim>\<open>KeyError\<close> for a name that is not registered, before the completion check.
\<close>

text \<open>\<^verbatim>\<open>str(KeyError(name))\<close> is the name between single quotes.\<close>

definition repr_str :: "string \<Rightarrow> string" where
  "repr_str name = CHR 0x27 # name @ [CHR 0x27]"

fun run_stages ::
  "engine \<Rightarrow> 'x registry \<Rightarrow> nat \<Rightarrow> string option \<Rightarrow> string list \<Rightarrow> (string \<rightharpoonup> string)
     \<Rightarrow> 'x world \<Rightarrow> (py_exception + (string \<rightharpoonup> string)) \<times> 'x world" where
  "run_stages eng reg document_id correlation_id [] results w = (Inr results, w)"
| "run_stages eng reg document_id correlation_id (stage_name # rest) results w =
     (case reg stage_name of
        None \<Rightarrow> (Inl (PyExc (OtherException ''KeyError'') (repr_str stage_name)), w)
      | Some stage \<Rightarrow>
          if is_stage_completed document_id stage_name w
          then run_stages eng reg document_id correlation_id rest
                 (results(stage_name \<mapsto> ''skipped'')) w
          else (case execute_stage_with_retry eng document_id stage_name stage
                       correlation_id 1 w of
                  (Inl e, w') \<Rightarrow> (Inl e, w')
                | (Inr result, w') \<Rightarrow>
                    run_stages eng reg document_id correlation_id rest
                      (results(stage_name \<mapsto> result)) w'))"

definition set_document_status :: "nat \<Rightarrow> string \<Rightarrow> 'x world \<Rightarrow> 'x world" where
  "set_document_status document_id status w =
     w\<lparr>store := (store w)\<lparr>documents :=
          map (\<lambda>d. if doc_id d = document_id then d\<lparr>doc_status := status\<rparr> else d)
              (documents (store w))\<rparr>\<rparr>"

definition execute_pipeline ::
  "engine \<Rightarrow> 'x registry \<Rightarrow> string list \<Rightarrow> nat \<Rightarrow> string option \<Rightarrow> 'x world
     \<Rightarrow> (py_exception + (string \<rightharpoonup> string)) \<times> 'x world" where
  "execute_pipeline eng reg stages document_id correlation_id w =
     (case run_stages eng reg document_id correlation_id stages Map.empty w of
        (Inl e, w') \<Rightarrow> (Inl e, w')
      | (Inr results, w') \<Rightarrow> (Inr results, set_document_status document_id ''completed'' w'))"



section \<open>Chunking (pipeline/stages/chunking.py)\<close>

text \<open>
  Text is a Python \<^verbatim>\<open>str\<close>; a character here is a code point below 256. \<open>is_space\<close> is
  \<^verbatim>\<open>str.isspace\<close> on one character, which is also what \<^verbatim>\<open>\s\<close> matches in a \<^verbatim>\<open>str\<close> pattern:
  tab, line feed, vertical tab, form feed, carriage return, the separators 28 to 31,
  space, next line (133) and no-break space (160).
\<close>

definition newline :: char where
  "newline = CHR 0x0A"

definition is_space :: "char \<Rightarrow> bool" where
  "is_space ch =
     (let n = (of_char ch :: nat)
      in (9 \<le> n \<and> n \<le> 13) \<or> (28 \<le> n \<and> n \<le> 32) \<or> n = 133 \<or> n = 160)"

text \<open>\<^verbatim>\<open>str.strip()\<close>\<close>

definition strip :: "string \<Rightarrow> string" where
  "strip s = rev (dropWhile is_space (rev (dropWhile is_space s)))"

text \<open>\<^verbatim>\<open>str.split()\<close>: the maximal runs of characters that are not whitespace.\<close>

fun split_words :: "string \<Rightarrow> string \<Rightarrow> string list" where
  "split_words cur [] = (if cur = [] then [] else [cur])"
| "split_words cur (ch # cs) =
     (if is_space ch
      then (if cur = [] then split_words [] cs else cur # split_words [] cs)
      else split_words (cur @ [ch]) cs)"

text \<open>
  \<^verbatim>\<open>re.split(r"\n\s*\n", text)\<close>. A match starts at a line feed; the greedy \<^verbatim>\<open>\s*\<close> takes the
  whole run of whitespace that follows and gives back characters until the last line
  feed of that run, where the match ends. If the run holds no line feed there is no match
  at this position. \<open>cur\<close> is the piece read since the last match.
\<close>

function re_split :: "string \<Rightarrow> string \<Rightarrow> string list" where
  "re_split cur [] = [cur]"
| "re_split cur (ch # cs) =
     (let ws = takeWhile is_space cs
      in if ch = newline \<and> newline \<in> set ws
         then cur # re_split []
                (drop (length ws - length (takeWhile (\<lambda>x. x \<noteq> newline) (rev ws))) cs)
         else re_split (cur @ [ch]) cs)"
  by pat_completeness auto
termination
  by (relation "measure (\<lambda>(cur, s). length s)") auto

text \<open>
  The chunker's settings and its tokenizer: \<open>Some enc\<close> when the \<^verbatim>\<open>cl100k_base\<close> encoding
  could be loaded (\<open>enc\<close> is its \<^verbatim>\<open>encode\<close>), \<open>None\<close> otherwise.
\<close>

record chunker =
  chunk_size :: nat
  chunk_overlap :: nat
  min_chunk_size :: nat
  tokenizer :: "(string \<Rightarrow> nat list) option"

text \<open>
  \<^verbatim>\<open>int(len(text.split()) * 1.3)\<close>: the float product truncated, which for every word count
  a text can have is \<open>13 * n div 10\<close>.
\<close>

definition count_tokens :: "chunker \<Rightarrow> string \<Rightarrow> nat" where
  "count_tokens ck text =
     (case tokenizer ck of
        Some enc \<Rightarrow> length (enc text)
      | None \<Rightarrow> (13 * length (split_words [] text)) div 10)"

text \<open>\<^verbatim>\<open>"\n\n".join(current_chunk)\<close>\<close>

fun join_paragraphs :: "string list \<Rightarrow> string" where
  "join_paragraphs [] = []"
| "join_paragraphs [p] = p"
| "join_paragraphs (p # q # ps) = p @ [newline, newline] @ join_paragraphs (q # ps)"

text \<open>
  One turn of the loop over the paragraphs, on the loop's variables
  \<open>(chunks, current_chunk, current_size)\<close>.
\<close>

definition chunk_step ::
  "chunker \<Rightarrow> string list \<times> string list \<times> nat \<Rightarrow> string \<Rightarrow> string list \<times> string list \<times> nat" where
  "chunk_step ck st raw =
     (let chunks = fst st; current_chunk = fst (snd st); current_size = snd (snd st);
          para = strip raw
      in if para = [] then st
         else
           (let para_tokens = count_tokens ck para;
                st1 =
                  (if current_size + para_tokens > chunk_size ck \<and> current_chunk \<noteq> [] then
                     (let chunk_text = join_paragraphs current_chunk;
                          chunks1 = (if length chunk_text \<ge> min_chunk_size ck
                                     then chunks @ [chunk_text] else chunks)
                      in if chunk_overlap ck > 0 then
                           (let kept = (if current_chunk \<noteq> [] then [last current_chunk] else [])
                            in (chunks1, kept,
                                if kept \<noteq> [] then count_tokens ck (hd kept) else 0))
                         else (chunks1, [], 0))
                   else (chunks, current_chunk, current_size))
            in (fst st1, fst (snd st1) @ [para], snd (snd st1) + para_tokens)))"

text \<open>The loop, and the chunk list after the final chunk has been added.\<close>

definition accumulate :: "chunker \<Rightarrow> string list \<Rightarrow> string list \<times> string list \<times> nat" where
  "accumulate ck paragraphs = foldl (chunk_step ck) ([], [], 0) paragraphs"

definition add_final_chunk :: "chunker \<Rightarrow> string list \<times> string list \<times> nat \<Rightarrow> string list" where
  "add_final_chunk ck st =
     (let chunks = fst st; current_chunk = fst (snd st)
      in if current_chunk \<noteq> [] then
           (let chunk_text = join_paragraphs current_chunk
            in if length chunk_text \<ge> min_chunk_size ck then chunks @ [chunk_text] else chunks)
         else chunks)"

definition create_chunks :: "chunker \<Rightarrow> string \<Rightarrow> string list" where
  "create_chunks ck text =
     (if text = [] then []
      else
        (let paragraphs = re_split [] text;
             chunks = add_final_chunk ck (accumulate ck paragraphs)
         in if chunks \<noteq> [] then chunks else [take (chunk_size ck) text]))"

section \<open>Model client (services/llm/openai\_provider.py)\<close>

text \<open>A JSON value as \<^verbatim>\<open>json.loads\<close> returns it; an object is a dict, kept as its items.\<close>

datatype json =
    JNull
  | JBool bool
  | JInt int
  | JFloat real
  | JString string
  | JArray "json list"
  | JObject "(string \<times> json) list"

text \<open>
  What \<^verbatim>\<open>await self.client.post(...)\<close> does: it raises \<^verbatim>\<open>httpx.TimeoutException\<close>, raises
  \<^verbatim>\<open>httpx.NetworkError\<close>, raises another exception (named), or returns a response with a
  status code. \<open>json_body\<close> is what \<^verbatim>\<open>response.json()\<close> gives: \<open>None\<close> when it raises
  \<^verbatim>\<open>JSONDecodeError\<close> because the body is not JSON.
\<close>

record http_response =
  status_code :: int
  json_body :: "json option"

datatype http_outcome =
    TimeoutException
  | NetworkError
  | OtherTransportError string
  | Response http_response

record llm_response =
  raw_response :: json
  parsed_json :: json
  tokens_in :: json
  tokens_out :: json
  finish_reason :: json

text \<open>
  Raising: the details dict of a taxonomy error is left out, so \<open>exc_str\<close> is its message.
  For the errors Python itself raises only the class is kept, and for \<^verbatim>\<open>KeyError\<close> the key.
\<close>

definition builtin_error :: "string \<Rightarrow> py_exception" where
  "builtin_error name = PyExc (OtherException name) []"

text \<open>\<^verbatim>\<open>value[key]\<close> for a string key, \<^verbatim>\<open>value[0]\<close>, and \<^verbatim>\<open>value.get(key, default)\<close>.\<close>

fun getitem_key :: "json \<Rightarrow> string \<Rightarrow> py_exception + json" where
  "getitem_key (JObject items) key =
     (case map_of items key of
        Some v \<Rightarrow> Inr v
      | None \<Rightarrow> Inl (PyExc (OtherException ''KeyError'') (repr_str key)))"
| "getitem_key v key = Inl (builtin_error ''TypeError'')"

fun getitem_first :: "json \<Rightarrow> py_exception + json" where
  "getitem_first (JArray xs) =
     (case xs of [] \<Rightarrow> Inl (builtin_error ''IndexError'') | x # _ \<Rightarrow> Inr x)"
| "getitem_first (JString s) =
     (case s of [] \<Rightarrow> Inl (builtin_error ''IndexError'') | ch # _ \<Rightarrow> Inr (JString [ch]))"
| "getitem_first (JObject items) = Inl (PyExc (OtherException ''KeyError'') ''0'')"
| "getitem_first v = Inl (builtin_error ''TypeError'')"

fun dict_get :: "json \<Rightarrow> string \<Rightarrow> json \<Rightarrow> py_exception + json" where
  "dict_get (JObject items) key dflt =
     (case map_of items key of Some v \<Rightarrow> Inr v | None \<Rightarrow> Inr dflt)"
| "dict_get v key dflt = Inl (builtin_error ''AttributeError'')"

definition startswith :: "string \<Rightarrow> string \<Rightarrow> bool" where
  "startswith s p = (take (length p) s = p)"

definition endswith :: "string \<Rightarrow> string \<Rightarrow> bool" where
  "endswith s p = (length p \<le> length s \<and> drop (length s - length p) s = p)"

text \<open>The text handed to \<^verbatim>\<open>json.loads\<close>: the response content without its markdown fence.\<close>

definition strip_fence :: "string \<Rightarrow> string" where
  "strip_fence raw =
     (let content = strip raw;
          content = (if startswith content ''```json'' then drop 7 content else content);
          content = (if startswith content ''```'' then drop 3 content else content);
          content = (if endswith content ''```''
                     then take (length content - 3) content else content)
      in strip content)"

text \<open>
  The inner \<^verbatim>\<open>try\<close>: \<^verbatim>\<open>raw_response.strip()\<close> exists for a string only; a
  \<^verbatim>\<open>JSONDecodeError\<close> of \<^verbatim>\<open>json.loads\<close> (\<open>loads\<close> giving \<open>None\<close>) becomes a \<^verbatim>\<open>ModelOutputError\<close>.
\<close>

definition parse_content :: "(string \<Rightarrow> json option) \<Rightarrow> json \<Rightarrow> py_exception + json" where
  "parse_content loads raw =
     (case raw of
        JString s \<Rightarrow>
          (case loads (strip_fence s) of
             Some v \<Rightarrow> Inr v
           | None \<Rightarrow> Inl (PyExc ModelOutputError ''Invalid JSON in model output''))
      | _ \<Rightarrow> Inl (builtin_error ''AttributeError''))"

text \<open>Sequencing of steps that can raise.\<close>

definition and_then :: "py_exception + 'a \<Rightarrow> ('a \<Rightarrow> py_exception + 'b) \<Rightarrow> py_exception + 'b" where
  "and_then r f = (case r of Inl e \<Rightarrow> Inl e | Inr v \<Rightarrow> f v)"

text \<open>The body of the outer \<^verbatim>\<open>try\<close> once the status is 200.\<close>

definition read_completion :: "(string \<Rightarrow> json option) \<Rightarrow> http_response \<Rightarrow> py_exception + llm_response" where
  "read_completion loads response =
     (case json_body response of
        None \<Rightarrow> Inl (builtin_error ''JSONDecodeError'')
      | Some data \<Rightarrow>
          and_then (getitem_key data ''choices'') (\<lambda>choices.
          and_then (getitem_first choices) (\<lambda>choice.
          and_then (getitem_key choice ''message'') (\<lambda>message.
          and_then (getitem_key message ''content'') (\<lambda>raw.
          and_then (dict_get data ''usage'' (JObject [])) (\<lambda>usage.
          and_then (dict_get usage ''prompt_tokens'' (JInt 0)) (\<lambda>t_in.
          and_then (dict_get usage ''completion_tokens'' (JInt 0)) (\<lambda>t_out.
          and_then (parse_content loads raw) (\<lambda>parsed.
          and_then (dict_get choice ''finish_reason'' JNull) (\<lambda>reason.
            Inr \<lparr>raw_response = raw, parsed_json = parsed, tokens_in = t_in,
                 tokens_out = t_out, finish_reason = reason\<rparr>))))))))))"

text \<open>
  \<^verbatim>\<open>generate_structured\<close>, as a function of the prompt, of \<^verbatim>\<open>json.loads\<close> and of what the
  HTTP request did. The two \<^verbatim>\<open>except\<close> clauses turn a timeout and a network error into a
  \<^verbatim>\<open>TransientExternalError\<close>; every other exception leaves the function as it is.
\<close>

definition generate_structured ::
  "(string \<Rightarrow> json option) \<Rightarrow> string \<Rightarrow> http_outcome \<Rightarrow> py_exception + llm_response" where
  "generate_structured loads prompt outcome =
     (case outcome of
        TimeoutException \<Rightarrow> Inl (PyExc TransientExternalError ''Request timeout'')
      | NetworkError \<Rightarrow> Inl (PyExc TransientExternalError ''Network error'')
      | OtherTransportError name \<Rightarrow> Inl (builtin_error name)
      | Response response \<Rightarrow>
          if status_code response = 429
          then Inl (PyExc TransientExternalError ''Rate limit exceeded'')
          else if status_code response \<ge> 500
          then Inl (PyExc TransientExternalError ''Server error'')
          else if status_code response \<noteq> 200
          then Inl (PyExc ModelOutputError ''API error'')
          else read_completion loads response)"

text \<open>
  The estimate of the specification, "words * 1.3", for a text: used to state what the
  client would return if it estimated token counts.
\<close>

definition estimated_tokens :: "string \<Rightarrow> real" where
  "estimated_tokens s = real (length (split_words [] s)) * 13 / 10"

section \<open>Document submission (app/api/routes/documents.py)\<close>

text \<open>
  The uploaded file, the two settings the route reads, and its answers. The hash function
  is of \<^verbatim>\<open>ContentHasher\<close>, and the correlation id a fresh \<^verbatim>\<open>uuid4\<close>: both are arguments. The
  detail text of an \<^verbatim>\<open>HTTPException\<close> is left out.
\<close>

record upload_file =
  filename :: "string option"
  content_type :: "string option"
  file_content :: string

record submit_settings =
  storage_max_file_size_mb :: nat
  storage_hash_raw_content :: bool

record submit_response =
  resp_document_id :: nat
  resp_correlation_id :: string
  resp_status :: string

datatype http_exception = HTTPException nat

text \<open>\<^verbatim>\<open>value or fallback\<close> for an optional string: \<open>None\<close> and the empty string are falsy.\<close>

definition or_else :: "string option \<Rightarrow> string \<Rightarrow> string" where
  "or_else v fallback = (case v of None \<Rightarrow> fallback | Some s \<Rightarrow> if s = [] then fallback else s)"

text \<open>
  The result is the answer, the store, and the background tasks added
  (\<^verbatim>\<open>run_pipeline(document_id, correlation_id)\<close>).
\<close>

definition submit_document ::
  "submit_settings \<Rightarrow> (string \<Rightarrow> string) \<Rightarrow> string \<Rightarrow> upload_file \<Rightarrow> string \<Rightarrow> 'x store
     \<Rightarrow> (http_exception + submit_response) \<times> 'x store \<times> (nat \<times> string) list" where
  "submit_document settings hash_content correlation_id file schema_version s =
     (let content = file_content file;
          max_size = storage_max_file_size_mb settings * 1024 * 1024
      in if length content > max_size then (Inl (HTTPException 413), s, [])
         else
           (let content_hash = hash_content content;
                mime_type = or_else (content_type file) ''application/octet-stream''
            in case find (\<lambda>d. doc_content_hash d = content_hash
                              \<and> doc_schema_version d = schema_version) (documents s) of
                 Some existing \<Rightarrow>
                   (Inr \<lparr>resp_document_id = doc_id existing,
                         resp_correlation_id = correlation_id,
                         resp_status = doc_status existing\<rparr>, s, [])
               | None \<Rightarrow>
                   (let document_id = next_key (map doc_id (documents s));
                        s1 = s\<lparr>documents := documents s @
                               [\<lparr>doc_id = document_id,
                                 doc_source = or_else (filename file) ''upload'',
                                 doc_content_hash = content_hash,
                                 doc_schema_version = schema_version,
                                 doc_status = ''pending'',
                                 doc_file_size_bytes = length content,
                                 doc_mime_type = mime_type\<rparr>]\<rparr>;
                        s2 = s1\<lparr>raw_content := raw_content s1 @
                               [\<lparr>rc_document_id = document_id, rc_content = content,
                                 rc_is_hashed = storage_hash_raw_content settings\<rparr>]\<rparr>
                    in (Inr \<lparr>resp_document_id = document_id,
                             resp_correlation_id = correlation_id,
                             resp_status = ''pending''\<rparr>, s2, [(document_id, correlation_id)]))))"
section \<open>Concrete inputs used to exercise the theorems\<close>

definition engine0 :: engine where
  "engine0 = \<lparr>max_retries = 3, backoff_base = 2, backoff_max = 60, use_jitter = False,
              random_random = (\<lambda>i. 1 / 4)\<rparr>"

definition store0 :: "unit store" where
  "store0 = \<lparr>documents = [\<lparr>doc_id = 1, doc_source = ''a.txt'', doc_content_hash = ''h'',
                 doc_schema_version = ''invoice_v1'', doc_status = ''pending'',
                 doc_file_size_bytes = 5, doc_mime_type = ''text/plain''\<rparr>],
             raw_content = [\<lparr>rc_document_id = 1, rc_content = ''hello'', rc_is_hashed = False\<rparr>],
             pipeline_runs = [], metrics = [], other = ()\<rparr>"

definition world0 :: "unit world" where
  "world0 = \<lparr>store = store0, slept = [], invoked = [], draws = 0\<rparr>"

definition failing_stage :: "py_exception \<Rightarrow> unit stage" where
  "failing_stage e document_id s = (Some e, s)"

definition ok_stage :: "string \<Rightarrow> unit stage" where
  "ok_stage status document_id s =
     (None, s\<lparr>documents := map (\<lambda>d. if doc_id d = document_id then d\<lparr>doc_status := status\<rparr> else d)
                              (documents s)\<rparr>)"

text \<open>A registry of two stages, and a world where both have completed for document 1.\<close>

definition registry1 :: "unit registry" where
  "registry1 = (\<lambda>name. if name = ''ingest'' then Some (ok_stage ''ingested'')
                        else if name = ''text_extraction'' then Some (ok_stage ''text_extracted'')
                        else None)"

definition world1 :: "unit world" where
  "world1 = \<lparr>store = store0\<lparr>pipeline_runs :=
       [\<lparr>run_id = 1, run_document_id = 1, run_stage = ''ingest'', run_status = ''completed'',
         run_attempt = 1, run_error_type = None, run_error_message = None,
         run_correlation_id = None\<rparr>,
        \<lparr>run_id = 2, run_document_id = 1, run_stage = ''text_extraction'',
         run_status = ''completed'', run_attempt = 1, run_error_type = None,
         run_error_message = None, run_correlation_id = None\<rparr>]\<rparr>,
     slept = [], invoked = [], draws = 0\<rparr>"


definition status_in :: "string list \<Rightarrow> document_row list \<Rightarrow> bool" where
  "status_in allowed ds = list_all (\<lambda>x. doc_status x \<in> set allowed) ds"

text \<open>
  A chunker with the smallest chunk size the settings allow and a tokenizer that yields
  one token for each character; two paragraphs of sixty characters.
\<close>

definition chunker0 :: chunker where
  "chunker0 = \<lparr>chunk_size = 100, chunk_overlap = 20, min_chunk_size = 50,
                tokenizer = Some (map of_char)\<rparr>"

definition para_a :: string where
  "para_a = ''aaaaaaaaaaaaaaaaaaaaaaaaaaaaaaaaaaaaaaaaaaaaaaaaaaaaaaaaaaaa''"

definition para_b :: string where
  "para_b = ''bbbbbbbbbbbbbbbbbbbbbbbbbbbbbbbbbbbbbbbbbbbbbbbbbbbbbbbbbbbb''"

text \<open>The chunker of the default settings, when the tokenizer could not be loaded.\<close>

definition default_chunker :: chunker where
  "default_chunker = \<lparr>chunk_size = 1000, chunk_overlap = 200, min_chunk_size = 100,
                       tokenizer = None\<rparr>"

text \<open>
  \<^verbatim>\<open>json.loads\<close> on the one text the examples parse, and a chat completion whose content is
  that text in a markdown fence; the first reports no usage, the second does.
\<close>

definition loads0 :: "string \<Rightarrow> json option" where
  "loads0 s = (if s = ''{}'' then Some (JObject []) else None)"

definition completion0 :: json where
  "completion0 =
     JObject [(''choices'', JArray [JObject
        [(''message'', JObject [(''role'', JString ''assistant''),
                                (''content'', JString ''```json {} ```'')]),
         (''finish_reason'', JString ''stop'')]])]"

definition completion1 :: json where
  "completion1 =
     JObject [(''choices'', JArray [JObject
        [(''message'', JObject [(''role'', JString ''assistant''),
                                (''content'', JString ''```json {} ```'')]),
         (''finish_reason'', JString ''stop'')]]),
      (''usage'', JObject [(''prompt_tokens'', JInt 57), (''completion_tokens'', JInt 3)])]"

text \<open>An upload of the five bytes \<open>hello\<close>, the default settings, and a stand-in hash.\<close>

definition settings0 :: submit_settings where
  "settings0 = \<lparr>storage_max_file_size_mb = 100, storage_hash_raw_content = False\<rparr>"

definition hello_file :: upload_file where
  "hello_file = \<lparr>filename = Some ''hello.txt'', content_type = Some ''text/plain'',
                 file_content = ''hello''\<rparr>"

definition hash0 :: "string \<Rightarrow> string" where
  "hash0 content = ''sha256:'' @ content"

definition empty_store :: "unit store" where
  "empty_store = \<lparr>documents = [], raw_content = [], pipeline_runs = [], metrics = [],
                  other = ()\<rparr>"

section \<open>Facts about the run table\<close>

lemma next_key_gt: "k \<in> set ks \<Longrightarrow> k < next_key ks"
  unfolding next_key_def by (induction ks) auto

lemma next_key_fresh: "\<forall>r \<in> set rows. run_id r \<noteq> next_key (map run_id rows)"
  using next_key_gt [of _ "map run_id rows"] by fastforce

lemma update_fresh_id:
  assumes "\<forall>r \<in> set rows. run_id r \<noteq> rid"
  shows "map (\<lambda>r. if run_id r = rid then f r else r) rows = rows"
  using assms by (induction rows) auto

section \<open>A failed attempt that is not retried\<close>

lemma single_attempt:
  assumes nr: "\<not> is_retryable e"
    and cr: "cr = create_run_record d n attempt c w"
    and st: "stage d (store (snd cr)) = (Some e, s')"
    and le: "attempt \<le> max_retries eng + 1"
  shows "execute_stage_with_retry eng d n stage c attempt w =
           (Inl e, fail_run_record (fst cr) (classify_error e) (exc_str e)
                     ((snd cr)\<lparr>store := s', invoked := invoked w @ [(n, d)]\<rparr>))"
proof -
  have inv: "invoke stage n d (snd cr) =
               (Some e, (snd cr)\<lparr>store := s', invoked := invoked w @ [(n, d)]\<rparr>)"
    using st by (simp add: invoke_def cr create_run_record_def Let_def)
  show ?thesis
    using nr le inv cr [symmetric]
    by (subst execute_stage_with_retry.simps) (simp add: Let_def)
qed

lemma failed_rows:
  assumes cr: "cr = create_run_record d n attempt c w"
    and pr: "pipeline_runs s' = pipeline_runs (store (snd cr))"
  shows "pipeline_runs (store (fail_run_record (fst cr) et em
                     ((snd cr)\<lparr>store := s', invoked := iv\<rparr>))) =
         pipeline_runs (store w) @
           [\<lparr>run_id = fst cr, run_document_id = d, run_stage = n, run_status = ''failed'',
             run_attempt = attempt, run_error_type = Some et,
             run_error_message = Some (take 1000 em), run_correlation_id = c\<rparr>]"
  using next_key_fresh [of "pipeline_runs (store w)"]
  by (simp add: cr pr fail_run_record_def create_run_record_def Let_def update_fresh_id)

lemma failed_frame:
  "slept (fail_run_record rid et em w) = slept w"
  "invoked (fail_run_record rid et em w) = invoked w"
  "draws (fail_run_record rid et em w) = draws w"
  "documents (store (fail_run_record rid et em w)) = documents (store w)"
  by (simp_all add: fail_run_record_def Let_def)

lemma created_frame:
  "slept (snd (create_run_record d n a c w)) = slept w"
  "invoked (snd (create_run_record d n a c w)) = invoked w"
  "draws (snd (create_run_record d n a c w)) = draws w"
  "documents (store (snd (create_run_record d n a c w))) = documents (store w)"
  by (simp_all add: create_run_record_def Let_def)

text \<open>
  One attempt, one failed row, no sleep: what the engine does when the first call of the
  stage raises an error that is not retryable and the stage leaves the run table alone.
\<close>

lemma abort_after_one_attempt:
  assumes nr: "\<not> is_retryable e"
    and st: "stage d (store (snd (create_run_record d n 1 c w))) = (Some e, s')"
    and pr: "pipeline_runs s' = pipeline_runs (store (snd (create_run_record d n 1 c w)))"
  shows "\<exists>w'. execute_stage_with_retry eng d n stage c 1 w = (Inl e, w')
           \<and> invoked w' = invoked w @ [(n, d)]
           \<and> slept w' = slept w
           \<and> pipeline_runs (store w') = pipeline_runs (store w) @
               [\<lparr>run_id = next_key (map run_id (pipeline_runs (store w))),
                 run_document_id = d, run_stage = n, run_status = ''failed'',
                 run_attempt = 1, run_error_type = Some (classify_error e),
                 run_error_message = Some (take 1000 (exc_str e)),
                 run_correlation_id = c\<rparr>]"
proof -
  define cr where "cr = create_run_record d n 1 c w"
  have rid: "fst cr = next_key (map run_id (pipeline_runs (store w)))"
    by (simp add: cr_def create_run_record_def Let_def)
  have ex: "execute_stage_with_retry eng d n stage c 1 w =
           (Inl e, fail_run_record (fst cr) (classify_error e) (exc_str e)
                     ((snd cr)\<lparr>store := s', invoked := invoked w @ [(n, d)]\<rparr>))"
    using single_attempt [OF nr cr_def, of stage s' eng] st by (simp add: cr_def)
  have rows: "pipeline_runs (store (fail_run_record (fst cr) (classify_error e) (exc_str e)
                     ((snd cr)\<lparr>store := s', invoked := invoked w @ [(n, d)]\<rparr>))) =
         pipeline_runs (store w) @
           [\<lparr>run_id = fst cr, run_document_id = d, run_stage = n, run_status = ''failed'',
             run_attempt = 1, run_error_type = Some (classify_error e),
             run_error_message = Some (take 1000 (exc_str e)), run_correlation_id = c\<rparr>]"
    using failed_rows [OF cr_def] pr by (simp add: cr_def)
  show ?thesis
    using ex rows rid by (simp add: failed_frame cr_def created_frame)
qed

text \<open>
  C3. An error is retryable exactly when its class is \<^verbatim>\<open>TransientExternalError\<close>. When a
  stage raises an error of any other class, the engine makes exactly one attempt: the call
  is the only one made, the run table gains one row, failed, with the classified error
  type, nothing is slept, and the error is raised again.
\<close>

theorem non_retryable_error_aborts_after_one_attempt:
  "(is_retryable e \<longleftrightarrow> exc_cls e = TransientExternalError) \<and>
   (exc_cls e \<noteq> TransientExternalError \<longrightarrow>
    stage d (store (snd (create_run_record d n 1 c w))) = (Some e, s') \<longrightarrow>
    pipeline_runs s' = pipeline_runs (store (snd (create_run_record d n 1 c w))) \<longrightarrow>
    (\<exists>w'. execute_stage_with_retry eng d n stage c 1 w = (Inl e, w')
           \<and> invoked w' = invoked w @ [(n, d)]
           \<and> slept w' = slept w
           \<and> pipeline_runs (store w') = pipeline_runs (store w) @
               [\<lparr>run_id = next_key (map run_id (pipeline_runs (store w))),
                 run_document_id = d, run_stage = n, run_status = ''failed'',
                 run_attempt = 1, run_error_type = Some (classify_error e),
                 run_error_message = Some (take 1000 (exc_str e)),
                 run_correlation_id = c\<rparr>]))"
proof -
  have "\<not> is_retryable e" if "exc_cls e \<noteq> TransientExternalError"
    using that by (simp add: is_retryable_def)
  then show ?thesis
    using abort_after_one_attempt [of e stage d n c w s' eng]
    by (simp add: is_retryable_def)
qed

theorem non_retryable_error_aborts_after_one_attempt_witness:
  "\<not> is_retryable (PyExc ModelOutputError ''Invalid JSON in model output'') \<and>
   (\<exists>w'. execute_stage_with_retry engine0 1 ''structured_extraction''
            (failing_stage (PyExc ModelOutputError ''Invalid JSON in model output''))
            (Some ''c-1'') 1 world0
          = (Inl (PyExc ModelOutputError ''Invalid JSON in model output''), w')
        \<and> invoked w' = [(''structured_extraction'', 1)]
        \<and> slept w' = []
        \<and> pipeline_runs (store w') =
            [\<lparr>run_id = 1, run_document_id = 1, run_stage = ''structured_extraction'',
              run_status = ''failed'', run_attempt = 1, run_error_type = Some ''model_output'',
              run_error_message = Some ''Invalid JSON in model output'',
              run_correlation_id = Some ''c-1''\<rparr>])"
  using non_retryable_error_aborts_after_one_attempt
    [of "PyExc ModelOutputError ''Invalid JSON in model output''"
        "failing_stage (PyExc ModelOutputError ''Invalid JSON in model output'')"
        1 "''structured_extraction''" "Some ''c-1''" world0
        "store (snd (create_run_record 1 ''structured_extraction'' 1 (Some ''c-1'') world0))"
        engine0]
  by (simp add: failing_stage_def world0_def store0_def next_key_def classify_error_def
      is_retryable_def)


section \<open>The four ways a turn of the retry loop goes\<close>

lemma retry_exit:
  "\<not> a \<le> max_retries eng + 1 \<Longrightarrow>
   execute_stage_with_retry eng d n stage c a w =
     (Inl (PyExc PipelineStateError ''Unexpected retry loop exit''), w)"
  by (subst execute_stage_with_retry.simps) simp

lemma retry_success:
  "a \<le> max_retries eng + 1 \<Longrightarrow>
   fst (invoke stage n d (snd (create_run_record d n a c w))) = None \<Longrightarrow>
   execute_stage_with_retry eng d n stage c a w =
     (Inr ''completed'',
      complete_run_record (fst (create_run_record d n a c w))
        (snd (invoke stage n d (snd (create_run_record d n a c w)))))"
  by (subst execute_stage_with_retry.simps) (simp add: Let_def)

lemma retry_abort:
  "a \<le> max_retries eng + 1 \<Longrightarrow>
   fst (invoke stage n d (snd (create_run_record d n a c w))) = Some e \<Longrightarrow>
   \<not> is_retryable e \<or> a > max_retries eng \<Longrightarrow>
   execute_stage_with_retry eng d n stage c a w =
     (Inl e,
      fail_run_record (fst (create_run_record d n a c w)) (classify_error e) (exc_str e)
        (snd (invoke stage n d (snd (create_run_record d n a c w)))))"
  by (subst execute_stage_with_retry.simps) (auto simp: Let_def)

lemma retry_again:
  "a \<le> max_retries eng \<Longrightarrow>
   fst (invoke stage n d (snd (create_run_record d n a c w))) = Some e \<Longrightarrow>
   is_retryable e \<Longrightarrow>
   execute_stage_with_retry eng d n stage c a w =
     execute_stage_with_retry eng d n stage c (a + 1)
       (back_off eng a
         (fail_run_record (fst (create_run_record d n a c w)) (classify_error e) (exc_str e)
           (snd (invoke stage n d (snd (create_run_record d n a c w))))))"
  by (subst execute_stage_with_retry.simps) (simp add: Let_def)

text \<open>Induction over the attempts of one stage, the engine and the stage being fixed.\<close>

lemma retry_induct [case_names exit success abort again]:
  assumes ex: "\<And>a w. \<not> a \<le> max_retries eng + 1 \<Longrightarrow> Q a w"
    and su: "\<And>a w. a \<le> max_retries eng + 1 \<Longrightarrow>
               fst (invoke stage n d (snd (create_run_record d n a c w))) = None \<Longrightarrow> Q a w"
    and ab: "\<And>a w e. a \<le> max_retries eng + 1 \<Longrightarrow>
               fst (invoke stage n d (snd (create_run_record d n a c w))) = Some e \<Longrightarrow>
               \<not> is_retryable e \<or> a > max_retries eng \<Longrightarrow> Q a w"
    and ag: "\<And>a w e. a \<le> max_retries eng \<Longrightarrow>
               fst (invoke stage n d (snd (create_run_record d n a c w))) = Some e \<Longrightarrow>
               is_retryable e \<Longrightarrow>
               Q (a + 1)
                 (back_off eng a
                   (fail_run_record (fst (create_run_record d n a c w)) (classify_error e)
                     (exc_str e) (snd (invoke stage n d (snd (create_run_record d n a c w))))))
               \<Longrightarrow> Q a w"
  shows "Q a w"
proof (induction "max_retries eng + 1 - a" arbitrary: a w rule: less_induct)
  case (less a w)
  show ?case
  proof (cases "a \<le> max_retries eng + 1")
    case False
    then show ?thesis by (rule ex)
  next
    case le: True
    show ?thesis
    proof (cases "fst (invoke stage n d (snd (create_run_record d n a c w)))")
      case None
      with le show ?thesis by (rule su)
    next
      case (Some e)
      show ?thesis
      proof (cases "\<not> is_retryable e \<or> a > max_retries eng")
        case True
        with le Some show ?thesis by (rule ab)
      next
        case False
        then have re: "is_retryable e" and am: "a \<le> max_retries eng" by auto
        have "max_retries eng + 1 - (a + 1) < max_retries eng + 1 - a"
          using am by simp
        from less [OF this] have "Q (a + 1)
                 (back_off eng a
                   (fail_run_record (fst (create_run_record d n a c w)) (classify_error e)
                     (exc_str e) (snd (invoke stage n d (snd (create_run_record d n a c w))))))" .
        with am Some re show ?thesis by (rule ag)
      qed
    qed
  qed
qed

text \<open>
  C10. An exception whose class is none of the eleven taxonomy classes (a \<^verbatim>\<open>KeyError\<close>, a
  \<^verbatim>\<open>ValueError\<close>, the bare base class) is classified as \<open>unknown\<close> and is not retryable;
  when a stage raises it the engine records the run as failed with error type \<open>unknown\<close>
  and raises it again after that one attempt, without sleeping.
\<close>

theorem unknown_error_aborts_after_one_attempt:
  "exc_cls e \<notin> set taxonomy_classes \<longrightarrow>
   classify_error e = ''unknown'' \<and> \<not> is_retryable e \<and>
   (stage d (store (snd (create_run_record d n 1 c w))) = (Some e, s') \<longrightarrow>
    pipeline_runs s' = pipeline_runs (store (snd (create_run_record d n 1 c w))) \<longrightarrow>
    (\<exists>w'. execute_stage_with_retry eng d n stage c 1 w = (Inl e, w')
           \<and> invoked w' = invoked w @ [(n, d)]
           \<and> slept w' = slept w
           \<and> pipeline_runs (store w') = pipeline_runs (store w) @
               [\<lparr>run_id = next_key (map run_id (pipeline_runs (store w))),
                 run_document_id = d, run_stage = n, run_status = ''failed'',
                 run_attempt = 1, run_error_type = Some ''unknown'',
                 run_error_message = Some (take 1000 (exc_str e)),
                 run_correlation_id = c\<rparr>]))"
proof (intro impI)
  assume out: "exc_cls e \<notin> set taxonomy_classes"
  have cl: "classify_error e = ''unknown''"
    using out by (simp add: taxonomy_classes_def classify_error_def)
  have nr: "\<not> is_retryable e"
    using out by (simp add: taxonomy_classes_def is_retryable_def)
  show "classify_error e = ''unknown'' \<and> \<not> is_retryable e \<and>
   (stage d (store (snd (create_run_record d n 1 c w))) = (Some e, s') \<longrightarrow>
    pipeline_runs s' = pipeline_runs (store (snd (create_run_record d n 1 c w))) \<longrightarrow>
    (\<exists>w'. execute_stage_with_retry eng d n stage c 1 w = (Inl e, w')
           \<and> invoked w' = invoked w @ [(n, d)]
           \<and> slept w' = slept w
           \<and> pipeline_runs (store w') = pipeline_runs (store w) @
               [\<lparr>run_id = next_key (map run_id (pipeline_runs (store w))),
                 run_document_id = d, run_stage = n, run_status = ''failed'',
                 run_attempt = 1, run_error_type = Some ''unknown'',
                 run_error_message = Some (take 1000 (exc_str e)),
                 run_correlation_id = c\<rparr>]))"
    using cl nr abort_after_one_attempt [OF nr, of stage d n c w s' eng] by simp
qed

theorem unknown_error_aborts_after_one_attempt_witness:
  "PyExc (OtherException ''KeyError'') ''choices'' \<noteq> PyExc TransientExternalError ''choices'' \<and>
   classify_error (PyExc (OtherException ''KeyError'') ''choices'') = ''unknown'' \<and>
   (\<exists>w'. execute_stage_with_retry engine0 1 ''structured_extraction''
            (failing_stage (PyExc (OtherException ''KeyError'') ''choices''))
            None 1 world0
          = (Inl (PyExc (OtherException ''KeyError'') ''choices''), w')
        \<and> invoked w' = [(''structured_extraction'', 1)]
        \<and> slept w' = []
        \<and> pipeline_runs (store w') =
            [\<lparr>run_id = 1, run_document_id = 1, run_stage = ''structured_extraction'',
              run_status = ''failed'', run_attempt = 1, run_error_type = Some ''unknown'',
              run_error_message = Some ''choices'',
              run_correlation_id = None\<rparr>])"
  using unknown_error_aborts_after_one_attempt
    [of "PyExc (OtherException ''KeyError'') ''choices''"
        "failing_stage (PyExc (OtherException ''KeyError'') ''choices'')"
        1 "''structured_extraction''" None world0
        "store (snd (create_run_record 1 ''structured_extraction'' 1 None world0))"
        engine0]
  by (simp add: failing_stage_def world0_def store0_def next_key_def taxonomy_classes_def)

section \<open>Backoff between attempts\<close>

lemma retry_step:
  assumes re: "is_retryable e"
    and le: "attempt \<le> max_retries eng"
    and st: "stage d (store (snd (create_run_record d n attempt c w))) = (Some e, s')"
  shows "execute_stage_with_retry eng d n stage c attempt w =
         execute_stage_with_retry eng d n stage c (attempt + 1)
           (back_off eng attempt
              (fail_run_record (fst (create_run_record d n attempt c w))
                 (classify_error e) (exc_str e)
                 ((snd (create_run_record d n attempt c w))
                    \<lparr>store := s', invoked := invoked w @ [(n, d)]\<rparr>)))"
proof -
  have inv: "invoke stage n d (snd (create_run_record d n attempt c w)) =
               (Some e, (snd (create_run_record d n attempt c w))
                          \<lparr>store := s', invoked := invoked w @ [(n, d)]\<rparr>)"
    using st by (simp add: invoke_def create_run_record_def Let_def)
  show ?thesis
    using re le inv
    by (subst execute_stage_with_retry.simps) (simp add: Let_def)
qed

lemma back_off_slept:
  "slept (back_off eng attempt w) =
     slept w @ [min (backoff_base eng ^ (attempt - 1)) (backoff_max eng) *
                (if use_jitter eng then 1 / 2 + random_random eng (draws w) else 1)]"
  by (simp add: back_off_def jitter_def sleep_def Let_def)

lemma back_off_frame:
  "invoked (back_off eng attempt w) = invoked w"
  "store (back_off eng attempt w) = store w"
  by (simp_all add: back_off_def jitter_def sleep_def Let_def)

text \<open>
  C2. When attempt \<open>a\<close> (from 1 to \<open>max_retries\<close>) of a stage fails with a retryable error,
  the engine goes on to attempt \<open>a + 1\<close> after exactly one sleep. Its length is
  \<open>min (backoff_base ^ (a - 1)) backoff_max\<close> when jitter is off, and that value times
  \<open>0.5 + r\<close> when jitter is on, where \<open>r\<close> is the sample of \<^verbatim>\<open>random.random()\<close>, which lies
  in \<open>[0, 1)\<close>: the factor lies in \<open>[0.5, 1.5)\<close>.
\<close>

theorem backoff_between_attempts:
  assumes "1 \<le> a" and "a \<le> max_retries eng"
    and "is_retryable e"
    and "stage d (store (snd (create_run_record d n a c w))) = (Some e, s')"
    and "\<forall>i. 0 \<le> random_random eng i \<and> random_random eng i < 1"
  shows "\<exists>w' m. execute_stage_with_retry eng d n stage c a w =
                  execute_stage_with_retry eng d n stage c (a + 1) w'
          \<and> invoked w' = invoked w @ [(n, d)]
          \<and> slept w' = slept w @ [min (backoff_base eng ^ (a - 1)) (backoff_max eng) * m]
          \<and> (if use_jitter eng
              then m = 1 / 2 + random_random eng (draws w) \<and> 1 / 2 \<le> m \<and> m < 3 / 2
              else m = 1)"
proof -
  let ?w3 = "fail_run_record (fst (create_run_record d n a c w))
                 (classify_error e) (exc_str e)
                 ((snd (create_run_record d n a c w))
                    \<lparr>store := s', invoked := invoked w @ [(n, d)]\<rparr>)"
  let ?m = "if use_jitter eng then 1 / 2 + random_random eng (draws w) else 1"
  have step: "execute_stage_with_retry eng d n stage c a w =
              execute_stage_with_retry eng d n stage c (a + 1) (back_off eng a ?w3)"
    using retry_step [of e a eng stage d n c w s'] assms(2,3,4) by simp
  have sl: "slept (back_off eng a ?w3) =
              slept w @ [min (backoff_base eng ^ (a - 1)) (backoff_max eng) * ?m]"
    by (simp add: back_off_slept failed_frame created_frame)
  have iv: "invoked (back_off eng a ?w3) = invoked w @ [(n, d)]"
    by (simp add: back_off_frame failed_frame)
  have rng: "0 \<le> random_random eng (draws w)" "random_random eng (draws w) < 1"
    using assms(5) by simp_all
  have m: "if use_jitter eng
           then ?m = 1 / 2 + random_random eng (draws w) \<and> 1 / 2 \<le> ?m \<and> ?m < 3 / 2
           else ?m = 1"
    using rng by simp
  show ?thesis
    using step sl iv m by blast
qed

theorem backoff_between_attempts_witness:
  "\<exists>w'. execute_stage_with_retry engine0 1 ''embedding''
            (failing_stage (PyExc TransientExternalError ''Rate limit exceeded'')) None 3 world0
        = execute_stage_with_retry engine0 1 ''embedding''
            (failing_stage (PyExc TransientExternalError ''Rate limit exceeded'')) None 4 w'
      \<and> slept w' = [4]"
proof -
  have h1: "(1::nat) \<le> 3" by simp
  have h2: "3 \<le> max_retries engine0" by (simp add: engine0_def)
  have h3: "is_retryable (PyExc TransientExternalError ''Rate limit exceeded'')"
    by (simp add: is_retryable_def)
  have h4: "failing_stage (PyExc TransientExternalError ''Rate limit exceeded'') 1
              (store (snd (create_run_record 1 ''embedding'' 3 None world0)))
            = (Some (PyExc TransientExternalError ''Rate limit exceeded''),
               store (snd (create_run_record 1 ''embedding'' 3 None world0)))"
    by (simp add: failing_stage_def)
  have h5: "\<forall>i. 0 \<le> random_random engine0 i \<and> random_random engine0 i < 1"
    by (simp add: engine0_def)
  show ?thesis
    using h1 h2 h3 h4 h5
      backoff_between_attempts
        [of 3 engine0 "PyExc TransientExternalError ''Rate limit exceeded''"
            "failing_stage (PyExc TransientExternalError ''Rate limit exceeded'')"
            1 "''embedding''" None world0
            "store (snd (create_run_record 1 ''embedding'' 3 None world0))"]
    by (auto simp: engine0_def world0_def)
qed

section \<open>Skipping completed stages\<close>

lemma is_stage_completed_iff:
  "is_stage_completed d S w \<longleftrightarrow>
     (\<exists>r \<in> set (pipeline_runs (store w)).
        run_document_id r = d \<and> run_stage r = S \<and> run_status r = ''completed'')"
  by (auto simp: is_stage_completed_def find_None_iff)

lemma run_stages_all_skipped:
  assumes "\<forall>S \<in> set stages. reg S \<noteq> None \<and> is_stage_completed d S w"
  shows "run_stages eng reg d c stages results w =
           (Inr (\<lambda>S. if S \<in> set stages then Some ''skipped'' else results S), w)"
  using assms
proof (induction stages arbitrary: results)
  case Nil
  then show ?case by simp
next
  case (Cons S rest)
  from Cons.prems obtain stage where reg: "reg S = Some stage" by auto
  have cmp: "is_stage_completed d S w" using Cons.prems by simp
  have rest: "\<forall>T \<in> set rest. reg T \<noteq> None \<and> is_stage_completed d T w"
    using Cons.prems by simp
  have "run_stages eng reg d c (S # rest) results w =
        run_stages eng reg d c rest (results(S \<mapsto> ''skipped'')) w"
    using reg cmp by simp
  also have "\<dots> = (Inr (\<lambda>T. if T \<in> set rest then Some ''skipped''
                               else (results(S \<mapsto> ''skipped'')) T), w)"
    using Cons.IH [OF rest] .
  also have "(\<lambda>T. if T \<in> set rest then Some ''skipped'' else (results(S \<mapsto> ''skipped'')) T)
           = (\<lambda>T. if T \<in> set (S # rest) then Some ''skipped'' else results T)"
    by auto
  finally show ?case .
qed


section \<open>What a pipeline run writes to the document row\<close>

lemma invoke_documents:
  "documents (store (snd (invoke stage n d w))) = documents (snd (stage d (store w)))"
  by (simp add: invoke_def Let_def)

lemma complete_frame:
  "documents (store (complete_run_record rid w)) = documents (store w)"
  by (simp add: complete_run_record_def Let_def)

text \<open>
  Between the calls of the stage, the retry loop writes the run and metric tables only:
  a property of the document table that the stage preserves is preserved by the loop.
\<close>

lemma retry_preserves:
  "(\<forall>d s. P (documents s) \<longrightarrow> P (documents (snd (stage d s)))) \<Longrightarrow>
   P (documents (store w)) \<Longrightarrow>
   P (documents (store (snd (execute_stage_with_retry eng d n stage c a w))))"
proof (induction eng d n stage c a w rule: execute_stage_with_retry.induct)
  case (1 eng d n stage c a w)
  let ?cr = "create_run_record d n a c w"
  let ?ex = "invoke stage n d (snd ?cr)"
  note st = "1.prems"(1)
  have "P (documents (store (snd ?cr)))"
    using "1.prems"(2) by (simp add: created_frame)
  with st have P1: "P (documents (store (snd ?ex)))"
    by (simp add: invoke_documents)
  show ?case
  proof (cases "a \<le> max_retries eng + 1")
    case False
    then show ?thesis
      using "1.prems"(2) by (subst execute_stage_with_retry.simps) simp
  next
    case le: True
    show ?thesis
    proof (cases "fst ?ex")
      case None
      then show ?thesis
        using le P1
        by (subst execute_stage_with_retry.simps) (simp add: Let_def complete_frame)
    next
      case (Some e)
      let ?w3 = "fail_run_record (fst ?cr) (classify_error e) (exc_str e) (snd ?ex)"
      have P3: "P (documents (store ?w3))"
        using P1 by (simp add: failed_frame)
      show ?thesis
      proof (cases "\<not> is_retryable e \<or> a > max_retries eng")
        case True
        then show ?thesis
          using le Some P3
          by (subst execute_stage_with_retry.simps) (auto simp: Let_def)
      next
        case False
        then have re: "is_retryable e" and na: "\<not> a > max_retries eng" by auto
        have P4: "P (documents (store (back_off eng a ?w3)))"
          using P3 by (simp add: back_off_frame)
        have "P (documents (store (snd (execute_stage_with_retry eng d n stage c (a + 1)
                 (back_off eng a ?w3)))))"
          using "1.IH" [OF le refl refl Some refl _ na st P4] re by simp
        then show ?thesis
          using le Some re na
          by (subst execute_stage_with_retry.simps) (simp add: Let_def)
      qed
    qed
  qed
qed


lemma run_stages_preserves:
  assumes st: "\<And>n stage d s. reg n = Some stage \<Longrightarrow> P (documents s)
                 \<Longrightarrow> P (documents (snd (stage d s)))"
  shows "P (documents (store w)) \<Longrightarrow>
         P (documents (store (snd (run_stages eng reg d c stages results w))))"
proof (induction stages arbitrary: results w)
  case Nil
  then show ?case by simp
next
  case (Cons S rest)
  show ?case
  proof (cases "reg S")
    case None
    then show ?thesis using Cons.prems by simp
  next
    case (Some stage)
    show ?thesis
    proof (cases "is_stage_completed d S w")
      case True
      then show ?thesis using Some Cons by simp
    next
      case False
      obtain out w1 where ex: "execute_stage_with_retry eng d S stage c 1 w = (out, w1)"
        by (cases "execute_stage_with_retry eng d S stage c 1 w")
      have P1: "P (documents (store w1))"
        using retry_preserves [of P stage w eng d S c 1] st [OF Some] Cons.prems ex by auto
      show ?thesis
        using Some False ex P1 Cons.IH [OF P1] by (cases out) simp_all
    qed
  qed
qed



section \<open>The run table across the retry loop\<close>



lemma rows_after_invoke:
  assumes "\<forall>d s. pipeline_runs (snd (stage d s)) = pipeline_runs s"
  shows "pipeline_runs (store (snd (invoke stage n d (snd (create_run_record d n a c w))))) =
     pipeline_runs (store w) @
       [\<lparr>run_id = next_key (map run_id (pipeline_runs (store w))), run_document_id = d,
         run_stage = n, run_status = ''running'', run_attempt = a, run_error_type = None,
         run_error_message = None, run_correlation_id = c\<rparr>]"
  using assms by (simp add: invoke_def create_run_record_def Let_def)

lemma rows_after_complete:
  assumes "\<forall>d s. pipeline_runs (snd (stage d s)) = pipeline_runs s"
  shows "pipeline_runs (store (complete_run_record (fst (create_run_record d n a c w))
            (snd (invoke stage n d (snd (create_run_record d n a c w)))))) =
     pipeline_runs (store w) @
       [\<lparr>run_id = next_key (map run_id (pipeline_runs (store w))), run_document_id = d,
         run_stage = n, run_status = ''completed'', run_attempt = a, run_error_type = None,
         run_error_message = None, run_correlation_id = c\<rparr>]"
proof -
  have rid: "fst (create_run_record d n a c w) = next_key (map run_id (pipeline_runs (store w)))"
    by (simp add: create_run_record_def Let_def)
  show ?thesis
    using next_key_fresh [of "pipeline_runs (store w)"]
    by (simp add: complete_run_record_def Let_def rows_after_invoke [OF assms] rid
        update_fresh_id)
qed

lemma rows_after_fail:
  assumes "\<forall>d s. pipeline_runs (snd (stage d s)) = pipeline_runs s"
  shows "pipeline_runs (store (fail_run_record (fst (create_run_record d n a c w)) et em
            (snd (invoke stage n d (snd (create_run_record d n a c w)))))) =
     pipeline_runs (store w) @
       [\<lparr>run_id = next_key (map run_id (pipeline_runs (store w))), run_document_id = d,
         run_stage = n, run_status = ''failed'', run_attempt = a,
         run_error_type = Some et, run_error_message = Some (take 1000 em),
         run_correlation_id = c\<rparr>]"
proof -
  have rid: "fst (create_run_record d n a c w) = next_key (map run_id (pipeline_runs (store w)))"
    by (simp add: create_run_record_def Let_def)
  show ?thesis
    using next_key_fresh [of "pipeline_runs (store w)"]
    by (simp add: fail_run_record_def Let_def rows_after_invoke [OF assms] rid
        update_fresh_id)
qed

text \<open>
  When the stage leaves the run table alone, the retry loop only appends to it, and a
  successful return has appended a completed row of the document and stage.
\<close>

lemma retry_appends:
  assumes st: "\<forall>d s. pipeline_runs (snd (stage d s)) = pipeline_runs s"
  shows "execute_stage_with_retry eng d n stage c a w = (out, w') \<Longrightarrow>
   (\<exists>extra. pipeline_runs (store w') = pipeline_runs (store w) @ extra \<and>
     (\<forall>r. out = Inr r \<longrightarrow>
        (\<exists>row \<in> set extra. run_document_id row = d \<and> run_stage row = n
                              \<and> run_status row = ''completed'')))"
proof (induction a w rule: retry_induct
         [where eng = eng and stage = stage and n = n and d = d and c = c])
  case (exit a w)
  then show ?case by (auto simp: retry_exit)
next
  case (success a w)
  from success(3) have "out = Inr ''completed''"
    and "w' = complete_run_record (fst (create_run_record d n a c w))
               (snd (invoke stage n d (snd (create_run_record d n a c w))))"
    by (simp_all add: retry_success [OF success(1,2)])
  then show ?case by (simp add: rows_after_complete [OF st])
next
  case (abort a w e)
  from abort(4) have "out = Inl e"
    and "w' = fail_run_record (fst (create_run_record d n a c w)) (classify_error e)
               (exc_str e) (snd (invoke stage n d (snd (create_run_record d n a c w))))"
    by (simp_all add: retry_abort [OF abort(1,2,3)])
  then show ?case by (simp add: rows_after_fail [OF st])
next
  case (again a w e)
  let ?w3 = "fail_run_record (fst (create_run_record d n a c w)) (classify_error e)
               (exc_str e) (snd (invoke stage n d (snd (create_run_record d n a c w))))"
  from again(5) have "execute_stage_with_retry eng d n stage c (a + 1) (back_off eng a ?w3)
                        = (out, w')"
    by (simp add: retry_again [OF again(1,2,3)])
  from again(4) [OF this] obtain extra where
    ex: "pipeline_runs (store w') = pipeline_runs (store (back_off eng a ?w3)) @ extra"
    and ok: "\<forall>r. out = Inr r \<longrightarrow>
        (\<exists>row \<in> set extra. run_document_id row = d \<and> run_stage row = n
                              \<and> run_status row = ''completed'')"
    by blast
  have "pipeline_runs (store (back_off eng a ?w3)) = pipeline_runs (store w) @
       [\<lparr>run_id = next_key (map run_id (pipeline_runs (store w))), run_document_id = d,
         run_stage = n, run_status = ''failed'', run_attempt = a,
         run_error_type = Some (classify_error e),
         run_error_message = Some (take 1000 (exc_str e)), run_correlation_id = c\<rparr>]"
    by (simp add: back_off_frame rows_after_fail [OF st])
  with ex have "pipeline_runs (store w') = pipeline_runs (store w) @
       ([\<lparr>run_id = next_key (map run_id (pipeline_runs (store w))), run_document_id = d,
         run_stage = n, run_status = ''failed'', run_attempt = a,
         run_error_type = Some (classify_error e),
         run_error_message = Some (take 1000 (exc_str e)), run_correlation_id = c\<rparr>]
        @ extra)"
    by simp
  moreover from ok have "\<forall>r. out = Inr r \<longrightarrow>
        (\<exists>row \<in> set ([\<lparr>run_id = next_key (map run_id (pipeline_runs (store w))),
         run_document_id = d,
         run_stage = n, run_status = ''failed'', run_attempt = a,
         run_error_type = Some (classify_error e),
         run_error_message = Some (take 1000 (exc_str e)), run_correlation_id = c\<rparr>]
        @ extra). run_document_id row = d \<and> run_stage row = n
                              \<and> run_status row = ''completed'')"
    by auto
  ultimately show ?case by blast
qed

lemma completed_mono:
  "pipeline_runs (store w') = pipeline_runs (store w) @ extra \<Longrightarrow>
   is_stage_completed d S w \<Longrightarrow> is_stage_completed d S w'"
  by (auto simp: is_stage_completed_iff)

lemma run_stages_completes:
  assumes st: "\<forall>n stage. reg n = Some stage \<longrightarrow>
                 (\<forall>d s. pipeline_runs (snd (stage d s)) = pipeline_runs s)"
  shows "run_stages eng reg d c stages results w = (Inr res, w') \<Longrightarrow>
         (\<exists>extra. pipeline_runs (store w') = pipeline_runs (store w) @ extra) \<and>
         (\<forall>S \<in> set stages. reg S \<noteq> None \<and> is_stage_completed d S w')"
proof (induction stages arbitrary: results w)
  case Nil
  then show ?case by simp
next
  case (Cons S rest)
  show ?case
  proof (cases "reg S")
    case None
    then show ?thesis using Cons.prems by simp
  next
    case (Some stage)
    show ?thesis
    proof (cases "is_stage_completed d S w")
      case True
      then have "run_stages eng reg d c rest (results(S \<mapsto> ''skipped'')) w = (Inr res, w')"
        using Some Cons.prems by simp
      from Cons.IH [OF this] obtain extra where
        ap: "pipeline_runs (store w') = pipeline_runs (store w) @ extra"
        and rest: "\<forall>T \<in> set rest. reg T \<noteq> None \<and> is_stage_completed d T w'"
        by blast
      have "is_stage_completed d S w'" using completed_mono [OF ap True] .
      then show ?thesis using ap rest Some by auto
    next
      case False
      obtain out w1 where ex: "execute_stage_with_retry eng d S stage c 1 w = (out, w1)"
        by (cases "execute_stage_with_retry eng d S stage c 1 w")
      have pres: "\<forall>d s. pipeline_runs (snd (stage d s)) = pipeline_runs s"
        using st Some by blast
      show ?thesis
      proof (cases out)
        case (Inl e)
        then show ?thesis using Some False ex Cons.prems by simp
      next
        case (Inr r)
        from retry_appends [OF pres ex] Inr obtain extra1 where
          ap1: "pipeline_runs (store w1) = pipeline_runs (store w) @ extra1"
          and cmp1: "is_stage_completed d S w1"
          by (auto simp: is_stage_completed_iff)
        have "run_stages eng reg d c rest (results(S \<mapsto> r)) w1 = (Inr res, w')"
          using Some False ex Inr Cons.prems by simp
        from Cons.IH [OF this] obtain extra where
          ap: "pipeline_runs (store w') = pipeline_runs (store w1) @ extra"
          and rest: "\<forall>T \<in> set rest. reg T \<noteq> None \<and> is_stage_completed d T w'"
          by blast
        have "is_stage_completed d S w'" using completed_mono [OF ap cmp1] .
        moreover have "pipeline_runs (store w') = pipeline_runs (store w) @ (extra1 @ extra)"
          using ap ap1 by simp
        ultimately show ?thesis using rest Some by auto
      qed
    qed
  qed
qed

text \<open>
  Idempotency of the pipeline. When a run of the pipeline has returned, and the stages do
  not write the run table themselves, a second run on the resulting world reports
  \<open>skipped\<close> for every stage and returns that world unchanged.
\<close>

lemma second_run_changes_nothing:
  assumes st: "\<forall>n stage. reg n = Some stage \<longrightarrow>
                 (\<forall>d s. pipeline_runs (snd (stage d s)) = pipeline_runs s)"
    and first: "execute_pipeline eng reg stages d c w = (Inr res, w1)"
  shows "execute_pipeline eng reg stages d c2 w1 =
           (Inr (\<lambda>S. if S \<in> set stages then Some ''skipped'' else None), w1)"
proof -
  obtain out w0 where rs: "run_stages eng reg d c stages Map.empty w = (out, w0)"
    by (cases "run_stages eng reg d c stages Map.empty w")
  with first have out: "out = Inr res" and w1: "w1 = set_document_status d ''completed'' w0"
    by (cases out; simp add: execute_pipeline_def)+
  from run_stages_completes [OF st rs [unfolded out]]
  have all0: "\<forall>S \<in> set stages. reg S \<noteq> None \<and> is_stage_completed d S w0" by blast
  have all1: "\<forall>S \<in> set stages. reg S \<noteq> None \<and> is_stage_completed d S w1"
    using all0 by (simp add: w1 is_stage_completed_def set_document_status_def)
  have idem: "set_document_status d ''completed'' w1 = w1"
    by (simp add: w1 set_document_status_def o_def)
  show ?thesis
    by (simp add: execute_pipeline_def run_stages_all_skipped [OF all1] idem)
qed

section \<open>The document table after a run\<close>








text \<open>
  C1. When the engine reaches a registered stage \<open>S\<close> and the run table holds a row of this
  document and stage with status \<open>completed\<close>, the engine records \<open>skipped\<close> for \<open>S\<close> and
  goes on to the next stage in the same world: \<open>S\<close> is not executed and nothing is written.
  Hence a run over a document all of whose stages have such a row reports \<open>skipped\<close> for
  every stage, calls no stage, sleeps never, and leaves every table as it was except for
  the final write of the status \<open>completed\<close> to the document row. And a finished run leaves
  such a document: when a run of the pipeline has returned (the stages not writing the run
  table themselves), a second run on the world it left reports \<open>skipped\<close> for every stage
  and returns that very world, so no stage is called and no row is written.
\<close>

theorem completed_stage_is_skipped:
  "(reg S = Some stage \<longrightarrow>
    (\<exists>r \<in> set (pipeline_runs (store w)).
        run_document_id r = d \<and> run_stage r = S \<and> run_status r = ''completed'') \<longrightarrow>
    run_stages eng reg d c (S # rest) results w =
      run_stages eng reg d c rest (results(S \<mapsto> ''skipped'')) w)
   \<and>
   ((\<forall>T \<in> set stages. reg T \<noteq> None \<and>
       (\<exists>r \<in> set (pipeline_runs (store w)).
          run_document_id r = d \<and> run_stage r = T \<and> run_status r = ''completed'')) \<longrightarrow>
    (\<exists>res w'. execute_pipeline eng reg stages d c w = (Inr res, w')
       \<and> (\<forall>T \<in> set stages. res T = Some ''skipped'')
       \<and> invoked w' = invoked w \<and> slept w' = slept w
       \<and> pipeline_runs (store w') = pipeline_runs (store w)
       \<and> metrics (store w') = metrics (store w)
       \<and> raw_content (store w') = raw_content (store w)
       \<and> other (store w') = other (store w)
       \<and> documents (store w') =
           map (\<lambda>x. if doc_id x = d then x\<lparr>doc_status := ''completed''\<rparr> else x)
               (documents (store w))))
   \<and>
   ((\<forall>n stage. reg n = Some stage \<longrightarrow>
       (\<forall>d s. pipeline_runs (snd (stage d s)) = pipeline_runs s)) \<longrightarrow>
    execute_pipeline eng reg stages d c w = (Inr res1, w1) \<longrightarrow>
    (\<exists>res2. execute_pipeline eng reg stages d c2 w1 = (Inr res2, w1)
       \<and> (\<forall>T \<in> set stages. res2 T = Some ''skipped'')))"
proof (intro conjI impI)
  assume "reg S = Some stage"
    and "\<exists>r \<in> set (pipeline_runs (store w)).
        run_document_id r = d \<and> run_stage r = S \<and> run_status r = ''completed''"
  then show "run_stages eng reg d c (S # rest) results w =
      run_stages eng reg d c rest (results(S \<mapsto> ''skipped'')) w"
    by (simp add: is_stage_completed_iff)
next
  assume "\<forall>T \<in> set stages. reg T \<noteq> None \<and>
       (\<exists>r \<in> set (pipeline_runs (store w)).
          run_document_id r = d \<and> run_stage r = T \<and> run_status r = ''completed'')"
  then have all: "\<forall>T \<in> set stages. reg T \<noteq> None \<and> is_stage_completed d T w"
    by (simp add: is_stage_completed_iff)
  have "execute_pipeline eng reg stages d c w =
          (Inr (\<lambda>T. if T \<in> set stages then Some ''skipped'' else None),
           set_document_status d ''completed'' w)"
    by (simp add: execute_pipeline_def run_stages_all_skipped [OF all])
  then show "\<exists>res w'. execute_pipeline eng reg stages d c w = (Inr res, w')
       \<and> (\<forall>T \<in> set stages. res T = Some ''skipped'')
       \<and> invoked w' = invoked w \<and> slept w' = slept w
       \<and> pipeline_runs (store w') = pipeline_runs (store w)
       \<and> metrics (store w') = metrics (store w)
       \<and> raw_content (store w') = raw_content (store w)
       \<and> other (store w') = other (store w)
       \<and> documents (store w') =
           map (\<lambda>x. if doc_id x = d then x\<lparr>doc_status := ''completed''\<rparr> else x)
               (documents (store w))"
    by (simp add: set_document_status_def)
next
  assume st: "\<forall>n stage. reg n = Some stage \<longrightarrow>
       (\<forall>d s. pipeline_runs (snd (stage d s)) = pipeline_runs s)"
    and first: "execute_pipeline eng reg stages d c w = (Inr res1, w1)"
  have "execute_pipeline eng reg stages d c2 w1 =
           (Inr (\<lambda>S. if S \<in> set stages then Some ''skipped'' else None), w1)"
    using st first by (rule second_run_changes_nothing)
  then show "\<exists>res2. execute_pipeline eng reg stages d c2 w1 = (Inr res2, w1)
       \<and> (\<forall>T \<in> set stages. res2 T = Some ''skipped'')"
    by simp
qed

theorem completed_stage_is_skipped_witness:
  "(\<exists>res w'. execute_pipeline engine0 registry1 [''ingest'', ''text_extraction''] 1 None world1
               = (Inr res, w')
     \<and> res ''ingest'' = Some ''skipped'' \<and> res ''text_extraction'' = Some ''skipped''
     \<and> invoked w' = [] \<and> slept w' = []
     \<and> pipeline_runs (store w') = pipeline_runs (store world1)
     \<and> map doc_status (documents (store w')) = [''completed''])
   \<and>
   (\<exists>res1 w1 res2.
       execute_pipeline engine0 registry1 [''ingest'', ''text_extraction''] 1 None world0
         = (Inr res1, w1)
     \<and> invoked w1 = [(''ingest'', 1), (''text_extraction'', 1)]
     \<and> map run_status (pipeline_runs (store w1)) = [''completed'', ''completed'']
     \<and> execute_pipeline engine0 registry1 [''ingest'', ''text_extraction''] 1 None w1
         = (Inr res2, w1)
     \<and> res2 ''ingest'' = Some ''skipped'' \<and> res2 ''text_extraction'' = Some ''skipped'')"
proof -
  have old: "\<exists>res w'. execute_pipeline engine0 registry1 [''ingest'', ''text_extraction''] 1
                 None world1 = (Inr res, w')
     \<and> res ''ingest'' = Some ''skipped'' \<and> res ''text_extraction'' = Some ''skipped''
     \<and> invoked w' = [] \<and> slept w' = []
     \<and> pipeline_runs (store w') = pipeline_runs (store world1)
     \<and> map doc_status (documents (store w')) = [''completed'']"
  proof -
    have hyp: "\<forall>T \<in> set [''ingest'', ''text_extraction'']. registry1 T \<noteq> None \<and>
       (\<exists>r \<in> set (pipeline_runs (store world1)).
          run_document_id r = 1 \<and> run_stage r = T \<and> run_status r = ''completed'')"
      by (simp add: registry1_def world1_def store0_def)
    from completed_stage_is_skipped
      [where reg = registry1 and w = world1 and d = 1 and eng = engine0 and c = None
         and stages = "[''ingest'', ''text_extraction'']",
       THEN conjunct2, THEN conjunct1, THEN mp, OF hyp]
    show ?thesis by (auto simp: world1_def store0_def)
  qed
  have ev: "\<exists>r. fst (execute_pipeline engine0 registry1 [''ingest'', ''text_extraction''] 1
                 None world0) = Inr r"
    "invoked (snd (execute_pipeline engine0 registry1 [''ingest'', ''text_extraction''] 1
                 None world0)) = [(''ingest'', 1), (''text_extraction'', 1)]"
    "map run_status (pipeline_runs (store (snd (execute_pipeline engine0 registry1
        [''ingest'', ''text_extraction''] 1 None world0)))) = [''completed'', ''completed'']"
    by (simp_all add: execute_pipeline_def registry1_def world0_def store0_def engine0_def
        is_stage_completed_def execute_stage_with_retry.simps create_run_record_def
        invoke_def ok_stage_def complete_run_record_def set_document_status_def
        Let_def next_key_def)
  then obtain res1 w1 where
    first: "execute_pipeline engine0 registry1 [''ingest'', ''text_extraction''] 1 None world0
              = (Inr res1, w1)"
    by (cases "execute_pipeline engine0 registry1 [''ingest'', ''text_extraction''] 1 None
                 world0") auto
  have st: "\<forall>n stage. registry1 n = Some stage \<longrightarrow>
       (\<forall>d s. pipeline_runs (snd (stage d s)) = pipeline_runs s)"
    by (simp add: registry1_def ok_stage_def)
  from completed_stage_is_skipped
      [where reg = registry1 and w = world0 and d = 1 and eng = engine0 and c = None
         and ?c2.0 = None and stages = "[''ingest'', ''text_extraction'']"
         and ?res1.0 = res1 and ?w1.0 = w1,
       THEN conjunct2, THEN conjunct2, THEN mp, THEN mp, OF st first]
  obtain res2 where
    "execute_pipeline engine0 registry1 [''ingest'', ''text_extraction''] 1 None w1
       = (Inr res2, w1)"
    "res2 ''ingest'' = Some ''skipped''" "res2 ''text_extraction'' = Some ''skipped''"
    by auto
  with first ev(2,3) old show ?thesis by auto
qed

section \<open>The chunker\<close>

lemma re_split_chars:
  "p \<in> set (re_split cur s) \<Longrightarrow> set p \<subseteq> set cur \<union> set s"
proof (induction cur s arbitrary: p rule: re_split.induct)
  case (1 cur)
  then show ?case by simp
next
  case (2 cur ch cs)
  let ?ws = "takeWhile is_space cs"
  let ?k = "length ?ws - length (takeWhile (\<lambda>x. x \<noteq> newline) (rev ?ws))"
  show ?case
  proof (cases "ch = newline \<and> newline \<in> set ?ws")
    case True
    then have "p = cur \<or> p \<in> set (re_split [] (drop ?k cs))"
      using "2.prems" by (simp add: Let_def)
    then show ?thesis
    proof
      assume "p = cur"
      then show ?thesis by auto
    next
      assume "p \<in> set (re_split [] (drop ?k cs))"
      then have "set p \<subseteq> set [] \<union> set (drop ?k cs)"
        using "2.IH"(1) [OF refl True] by simp
      moreover have "set (drop ?k cs) \<subseteq> set cs" by (rule set_drop_subset)
      ultimately show ?thesis by auto
    qed
  next
    case False
    then have "p \<in> set (re_split (cur @ [ch]) cs)"
      using "2.prems" by (auto simp: Let_def)
    then have "set p \<subseteq> set (cur @ [ch]) \<union> set cs"
      using "2.IH"(2) [OF refl False] by simp
    then show ?thesis by auto
  qed
qed

lemma strip_spaces:
  assumes "\<forall>x \<in> set p. is_space x"
  shows "strip p = []"
proof -
  have dw: "dropWhile is_space p = []"
    using assms by (induction p) simp_all
  show ?thesis by (simp only: strip_def dw rev.simps dropWhile.simps)
qed

lemma accumulate_blank:
  "\<forall>p \<in> set ps. strip p = [] \<Longrightarrow> foldl (chunk_step ck) st ps = st"
  by (induction ps arbitrary: st) (simp_all add: chunk_step_def Let_def)

lemma blank_text_accumulates_nothing:
  assumes "\<forall>x \<in> set text. is_space x"
  shows "add_final_chunk ck (accumulate ck (re_split [] text)) = []"
proof -
  have "\<forall>p \<in> set (re_split [] text). strip p = []"
  proof
    fix p assume "p \<in> set (re_split [] text)"
    then have "set p \<subseteq> set text" using re_split_chars [of p "[]" "text"] by simp
    then show "strip p = []" using assms by (auto intro: strip_spaces)
  qed
  then have "accumulate ck (re_split [] text) = ([], [], 0)"
    by (simp add: accumulate_def accumulate_blank)
  then show ?thesis by (simp add: add_final_chunk_def)
qed

text \<open>
  C5, as the claim states it, fails: for the empty text the chunker returns no chunk.
\<close>

theorem empty_text_has_no_chunk:
  "\<not> 1 \<le> length (create_chunks default_chunker '''')"
  by (simp add: create_chunks_def)

text \<open>
  C5, amended. For the empty text the chunker returns the empty list. For every other
  text it returns at least one chunk: the chunks of the greedy accumulation when there
  are any, and otherwise (in particular when the text is all whitespace, or every
  candidate was shorter than \<open>min_chunk_size\<close>) exactly one chunk, the prefix of the text
  made of its first \<open>chunk_size\<close> characters.
\<close>

theorem nonempty_text_has_a_chunk:
  "create_chunks ck [] = [] \<and>
   (text \<noteq> [] \<longrightarrow>
      1 \<le> length (create_chunks ck text) \<and>
      (add_final_chunk ck (accumulate ck (re_split [] text)) \<noteq> [] \<longrightarrow>
         create_chunks ck text = add_final_chunk ck (accumulate ck (re_split [] text))) \<and>
      (add_final_chunk ck (accumulate ck (re_split [] text)) = [] \<longrightarrow>
         create_chunks ck text = [take (chunk_size ck) text] \<and>
         text = take (chunk_size ck) text @ drop (chunk_size ck) text) \<and>
      ((\<forall>x \<in> set text. is_space x) \<longrightarrow>
         create_chunks ck text = [take (chunk_size ck) text]))"
proof (intro conjI impI)
  show "create_chunks ck [] = []" by (simp add: create_chunks_def)
next
  assume "text \<noteq> []"
  then show "1 \<le> length (create_chunks ck text)"
    by (cases "add_final_chunk ck (accumulate ck (re_split [] text))")
       (simp_all add: create_chunks_def Let_def)
next
  assume "text \<noteq> []" "add_final_chunk ck (accumulate ck (re_split [] text)) \<noteq> []"
  then show "create_chunks ck text = add_final_chunk ck (accumulate ck (re_split [] text))"
    by (simp add: create_chunks_def Let_def)
next
  assume "text \<noteq> []" "add_final_chunk ck (accumulate ck (re_split [] text)) = []"
  then show "create_chunks ck text = [take (chunk_size ck) text]"
    by (simp add: create_chunks_def Let_def)
next
  show "text = take (chunk_size ck) text @ drop (chunk_size ck) text" by simp
next
  assume "text \<noteq> []" "\<forall>x \<in> set text. is_space x"
  then show "create_chunks ck text = [take (chunk_size ck) text]"
    using blank_text_accumulates_nothing [of "text" ck]
    by (simp add: create_chunks_def Let_def)
qed

theorem nonempty_text_has_a_chunk_witness:
  "''  '' \<noteq> [] \<and> is_space (CHR '' '') \<and>
   1 \<le> length (create_chunks default_chunker ''  '') \<and>
   create_chunks default_chunker ''  '' = [''  '']"
  using nonempty_text_has_a_chunk [of default_chunker "''  ''"]
  by (simp add: is_space_def default_chunker_def)

text \<open>Every chunk the accumulation emits has at least \<open>min_chunk_size\<close> characters.\<close>

lemma chunk_step_min:
  assumes "\<forall>x \<in> set (fst st). min_chunk_size ck \<le> length x"
  shows "\<forall>x \<in> set (fst (chunk_step ck st raw)). min_chunk_size ck \<le> length x"
  using assms by (auto simp: chunk_step_def Let_def)

lemma foldl_chunk_step_min:
  "\<forall>x \<in> set (fst st). min_chunk_size ck \<le> length x \<Longrightarrow>
   \<forall>x \<in> set (fst (foldl (chunk_step ck) st ps)). min_chunk_size ck \<le> length x"
proof (induction ps arbitrary: st)
  case Nil
  then show ?case by simp
next
  case (Cons p ps)
  from chunk_step_min [OF Cons.prems, of p] Cons.IH [of "chunk_step ck st p"]
  show ?case by simp
qed

lemma emitted_chunks_min:
  "\<forall>x \<in> set (add_final_chunk ck (accumulate ck ps)). min_chunk_size ck \<le> length x"
  using foldl_chunk_step_min [of "([], [], 0)" ck ps]
  by (auto simp: add_final_chunk_def accumulate_def Let_def)

text \<open>The loop over the paragraphs, one paragraph at a time.\<close>

lemma accumulate_snoc:
  "accumulate ck (ps @ [raw]) = chunk_step ck (accumulate ck ps) raw"
  by (simp add: accumulate_def)

text \<open>
  C6. The accumulation starts with no chunk and an empty current chunk, and skips a blank
  paragraph. After the paragraphs \<open>ps\<close>, with the loop variables
  \<open>(chunks, current_chunk, current_size)\<close>, a paragraph that is not blank goes as follows.
  When its tokens added to the current size exceed \<open>chunk_size\<close> and the current chunk is
  not empty: the current chunk, joined, is appended to the chunks if it has at least
  \<open>min_chunk_size\<close> characters and is dropped otherwise; the next chunk starts with the
  last paragraph of the current one when \<open>chunk_overlap > 0\<close> and empty otherwise; then the
  paragraph is appended to it. Otherwise the paragraph is appended to the current chunk.
  For a text that is not empty, the chunker returns the chunks of the loop over its
  paragraphs followed by the current chunk, joined, if that is not empty and has at least
  \<open>min_chunk_size\<close> characters (and the fallback chunk when this leaves no chunk). So
  every chunk of the accumulation has at least \<open>min_chunk_size\<close> characters.
\<close>

theorem greedy_accumulation_flush:
  "accumulate ck [] = ([], [], 0)
   \<and>
   (strip raw = [] \<longrightarrow> accumulate ck (ps @ [raw]) = accumulate ck ps)
   \<and>
   (accumulate ck ps = (chunks, current_chunk, current_size) \<longrightarrow>
    strip raw \<noteq> [] \<longrightarrow> current_chunk \<noteq> [] \<longrightarrow>
    current_size + count_tokens ck (strip raw) > chunk_size ck \<longrightarrow>
    accumulate ck (ps @ [raw]) =
      ((if min_chunk_size ck \<le> length (join_paragraphs current_chunk)
        then chunks @ [join_paragraphs current_chunk] else chunks),
       (if chunk_overlap ck > 0 then [last current_chunk, strip raw] else [strip raw]),
       (if chunk_overlap ck > 0 then count_tokens ck (last current_chunk) else 0)
         + count_tokens ck (strip raw)))
   \<and>
   (accumulate ck ps = (chunks, current_chunk, current_size) \<longrightarrow>
    strip raw \<noteq> [] \<longrightarrow>
    (current_chunk = [] \<or> current_size + count_tokens ck (strip raw) \<le> chunk_size ck) \<longrightarrow>
    accumulate ck (ps @ [raw]) =
      (chunks, current_chunk @ [strip raw], current_size + count_tokens ck (strip raw)))
   \<and>
   (whole_text \<noteq> [] \<longrightarrow>
    accumulate ck (re_split [] whole_text) = (final_chunks, final_chunk, final_size) \<longrightarrow>
    create_chunks ck whole_text =
      (if final_chunk \<noteq> [] \<and> min_chunk_size ck \<le> length (join_paragraphs final_chunk)
       then final_chunks @ [join_paragraphs final_chunk]
       else if final_chunks \<noteq> [] then final_chunks
       else [take (chunk_size ck) whole_text]))
   \<and>
   (\<forall>x \<in> set (add_final_chunk ck (accumulate ck ps)). min_chunk_size ck \<le> length x)"
proof (intro conjI impI)
  show "accumulate ck [] = ([], [], 0)" by (simp add: accumulate_def)
next
  assume "strip raw = []"
  then show "accumulate ck (ps @ [raw]) = accumulate ck ps"
    by (simp add: accumulate_snoc chunk_step_def Let_def)
next
  assume "accumulate ck ps = (chunks, current_chunk, current_size)"
    "strip raw \<noteq> []" "current_chunk \<noteq> []"
    "current_size + count_tokens ck (strip raw) > chunk_size ck"
  then show "accumulate ck (ps @ [raw]) =
      ((if min_chunk_size ck \<le> length (join_paragraphs current_chunk)
        then chunks @ [join_paragraphs current_chunk] else chunks),
       (if chunk_overlap ck > 0 then [last current_chunk, strip raw] else [strip raw]),
       (if chunk_overlap ck > 0 then count_tokens ck (last current_chunk) else 0)
         + count_tokens ck (strip raw))"
    by (simp add: accumulate_snoc chunk_step_def Let_def)
next
  assume "accumulate ck ps = (chunks, current_chunk, current_size)"
    "strip raw \<noteq> []"
    "current_chunk = [] \<or> current_size + count_tokens ck (strip raw) \<le> chunk_size ck"
  then show "accumulate ck (ps @ [raw]) =
      (chunks, current_chunk @ [strip raw], current_size + count_tokens ck (strip raw))"
    by (auto simp: accumulate_snoc chunk_step_def Let_def)
next
  assume "whole_text \<noteq> []"
    "accumulate ck (re_split [] whole_text) = (final_chunks, final_chunk, final_size)"
  then show "create_chunks ck whole_text =
      (if final_chunk \<noteq> [] \<and> min_chunk_size ck \<le> length (join_paragraphs final_chunk)
       then final_chunks @ [join_paragraphs final_chunk]
       else if final_chunks \<noteq> [] then final_chunks
       else [take (chunk_size ck) whole_text])"
    by (simp add: create_chunks_def add_final_chunk_def Let_def)
next
  show "\<forall>x \<in> set (add_final_chunk ck (accumulate ck ps)). min_chunk_size ck \<le> length x"
    by (rule emitted_chunks_min)
qed

theorem greedy_accumulation_flush_witness:
  "accumulate chunker0 [para_a] = ([], [para_a], 60) \<and>
   accumulate chunker0 [para_a, para_b] = ([para_a], [para_a, para_b], 120) \<and>
   create_chunks chunker0 (para_a @ [newline, newline] @ para_b)
     = [para_a, para_a @ [newline, newline] @ para_b]"
proof -
  have a1: "accumulate chunker0 [para_a] = ([], [para_a], 60)"
    by (simp add: accumulate_def chunk_step_def chunker0_def strip_def is_space_def
        count_tokens_def para_a_def Let_def)
  have sb: "strip para_b = para_b" "para_b \<noteq> []" "length para_b = 60" "length para_a = 60"
    by (simp_all add: strip_def is_space_def para_b_def para_a_def)
  have a2: "accumulate chunker0 [para_a, para_b] = ([para_a], [para_a, para_b], 120)"
    using greedy_accumulation_flush
      [where ck = chunker0 and ps = "[para_a]" and raw = para_b and chunks = "[]"
         and current_chunk = "[para_a]" and current_size = 60,
       THEN conjunct2, THEN conjunct2, THEN conjunct1] a1 sb
    by (simp add: chunker0_def count_tokens_def)
  have sp: "re_split [] (para_a @ [newline, newline] @ para_b) = [para_a, para_b]"
    by (simp add: para_a_def para_b_def newline_def is_space_def)
  have ne: "para_a @ [newline, newline] @ para_b \<noteq> []" by simp
  have "create_chunks chunker0 (para_a @ [newline, newline] @ para_b)
     = [para_a, para_a @ [newline, newline] @ para_b]"
    using greedy_accumulation_flush
      [where ck = chunker0 and whole_text = "para_a @ [newline, newline] @ para_b"
         and final_chunks = "[para_a]" and final_chunk = "[para_a, para_b]"
         and final_size = 120,
       THEN conjunct2, THEN conjunct2, THEN conjunct2, THEN conjunct2, THEN conjunct1]
      a2 sp ne sb
    by (simp add: chunker0_def)
  with a1 a2 show ?thesis by simp
qed

section \<open>The model client\<close>

lemma and_then_Inr:
  "and_then r f = Inr y \<Longrightarrow> \<exists>v. r = Inr v \<and> f v = Inr y"
  by (cases r) (simp_all add: and_then_def)

lemma getitem_key_Inr:
  "getitem_key v k = Inr x \<Longrightarrow> \<exists>items. v = JObject items \<and> map_of items k = Some x"
  by (cases v) (auto split: option.splits)

lemma dict_get_Inr:
  "dict_get v k d = Inr x \<Longrightarrow>
     \<exists>items. v = JObject items \<and> x = (case map_of items k of Some y \<Rightarrow> y | None \<Rightarrow> d)"
  by (cases v) (auto split: option.splits)

text \<open>
  The part of the error mapping that the client implements: rate limiting, server errors,
  timeouts and network errors are transient; every other status but 200 is a model output
  error; and so is a 200 response with a string content that, without its fence, does
  not parse.
\<close>

lemma http_error_mapping:
  "generate_structured loads prompt TimeoutException
     = Inl (PyExc TransientExternalError ''Request timeout'')"
  "generate_structured loads prompt NetworkError
     = Inl (PyExc TransientExternalError ''Network error'')"
  "status_code response = 429 \<Longrightarrow>
     \<exists>e. generate_structured loads prompt (Response response) = Inl e
         \<and> exc_cls e = TransientExternalError"
  "status_code response \<ge> 500 \<Longrightarrow>
     \<exists>e. generate_structured loads prompt (Response response) = Inl e
         \<and> exc_cls e = TransientExternalError"
  "status_code response \<noteq> 429 \<Longrightarrow> status_code response < 500 \<Longrightarrow>
   status_code response \<noteq> 200 \<Longrightarrow>
     \<exists>e. generate_structured loads prompt (Response response) = Inl e
         \<and> exc_cls e = ModelOutputError"
  by (simp_all add: generate_structured_def)

lemma unparseable_content_is_model_output:
  assumes "status_code response = 200"
    and "json_body response = Some (JObject
           [(''choices'', JArray [JObject [(''message'', JObject [(''content'', JString s)])]])])"
    and "loads (strip_fence s) = None"
  shows "generate_structured loads prompt (Response response)
           = Inl (PyExc ModelOutputError ''Invalid JSON in model output'')"
  using assms
  by (simp add: generate_structured_def read_completion_def and_then_def parse_content_def)

text \<open>
  C7. The mapping is not as the claim describes it for a 200 response whose body lacks the
  response content, or is not JSON: the client raises the \<^verbatim>\<open>KeyError\<close> of the lookup, or
  the \<^verbatim>\<open>JSONDecodeError\<close> of \<^verbatim>\<open>response.json()\<close>, and not a \<^verbatim>\<open>ModelOutputError\<close>; the engine
  classifies both as \<open>unknown\<close>.
\<close>

theorem missing_content_is_not_model_output:
  "generate_structured loads prompt
     (Response \<lparr>status_code = 200, json_body = Some (JObject [])\<rparr>)
     = Inl (PyExc (OtherException ''KeyError'') (repr_str ''choices'')) \<and>
   generate_structured loads prompt (Response \<lparr>status_code = 200, json_body = None\<rparr>)
     = Inl (PyExc (OtherException ''JSONDecodeError'') []) \<and>
   classify_error (PyExc (OtherException ''KeyError'') (repr_str ''choices'')) = ''unknown'' \<and>
   classify_error (PyExc (OtherException ''JSONDecodeError'') []) = ''unknown''"
  by (simp add: generate_structured_def read_completion_def and_then_def builtin_error_def
      classify_error_def)

text \<open>
  C8, as the claim states it, fails: for a completion that reports no usage the client
  returns 0 for both counts, where the estimate from the words of the prompt and of the
  response is 3.9 and 1.3.
\<close>

theorem absent_usage_gives_zero_tokens:
  "generate_structured loads0 ''Extract the total''
     (Response \<lparr>status_code = 200, json_body = Some completion0\<rparr>)
     = Inr \<lparr>raw_response = JString ''```json {} ```'', parsed_json = JObject [],
            tokens_in = JInt 0, tokens_out = JInt 0, finish_reason = JString ''stop''\<rparr>
   \<and> estimated_tokens ''Extract the total'' = 39 / 10
   \<and> estimated_tokens ''```json {} ```'' = 39 / 10
   \<and> estimated_tokens (strip_fence ''```json {} ```'') = 13 / 10"
  by (simp add: generate_structured_def read_completion_def and_then_def parse_content_def
      completion0_def loads0_def strip_fence_def strip_def is_space_def startswith_def
      endswith_def estimated_tokens_def)

text \<open>
  C8, amended. For every successful call, \<open>tokens_in\<close> and \<open>tokens_out\<close> are the values of
  \<^verbatim>\<open>prompt_tokens\<close> and \<^verbatim>\<open>completion_tokens\<close> in the \<^verbatim>\<open>usage\<close> object of the response when it
  reports them, and 0 for each one it does not report.
\<close>

theorem token_counts_are_reported_or_zero:
  assumes "generate_structured loads prompt outcome = Inr r"
  shows "\<exists>response items usage.
           outcome = Response response \<and> status_code response = 200
         \<and> json_body response = Some (JObject items)
         \<and> (map_of items ''usage'' = Some (JObject usage)
              \<or> map_of items ''usage'' = None \<and> usage = [])
         \<and> tokens_in r = (case map_of usage ''prompt_tokens'' of
                             Some v \<Rightarrow> v | None \<Rightarrow> JInt 0)
         \<and> tokens_out r = (case map_of usage ''completion_tokens'' of
                              Some v \<Rightarrow> v | None \<Rightarrow> JInt 0)"
proof -
  from assms obtain response where out: "outcome = Response response"
    and st: "status_code response = 200"
    and rc: "read_completion loads response = Inr r"
    by (cases outcome) (auto simp: generate_structured_def split: if_splits)
  from rc obtain data where body: "json_body response = Some data"
    by (cases "json_body response") (simp_all add: read_completion_def)
  from rc body obtain choices raw usage_v t_in t_out parsed reason where
        c1: "getitem_key data ''choices'' = Inr choices"
    and u: "dict_get data ''usage'' (JObject []) = Inr usage_v"
    and ti: "dict_get usage_v ''prompt_tokens'' (JInt 0) = Inr t_in"
    and tout: "dict_get usage_v ''completion_tokens'' (JInt 0) = Inr t_out"
    and r: "r = \<lparr>raw_response = raw, parsed_json = parsed, tokens_in = t_in,
                 tokens_out = t_out, finish_reason = reason\<rparr>"
    by (auto simp: read_completion_def dest!: and_then_Inr)
  from c1 obtain items where data: "data = JObject items"
    using getitem_key_Inr by blast
  from ti obtain usage where uv: "usage_v = JObject usage"
    and ti': "t_in = (case map_of usage ''prompt_tokens'' of Some v \<Rightarrow> v | None \<Rightarrow> JInt 0)"
    using dict_get_Inr by blast
  from tout uv have tout':
    "t_out = (case map_of usage ''completion_tokens'' of Some v \<Rightarrow> v | None \<Rightarrow> JInt 0)"
    by (auto split: option.splits)
  from u data uv have us: "map_of items ''usage'' = Some (JObject usage)
              \<or> map_of items ''usage'' = None \<and> usage = []"
    by (auto split: option.splits)
  show ?thesis
    using out st body data us ti' tout' r by auto
qed

theorem token_counts_are_reported_or_zero_witness:
  "generate_structured loads0 ''Extract the total''
     (Response \<lparr>status_code = 200, json_body = Some completion1\<rparr>)
     = Inr \<lparr>raw_response = JString ''```json {} ```'', parsed_json = JObject [],
            tokens_in = JInt 57, tokens_out = JInt 3, finish_reason = JString ''stop''\<rparr>
   \<and> (\<exists>usage. map_of [(''usage'', JObject [(''prompt_tokens'', JInt 57),
                                            (''completion_tokens'', JInt 3)])] ''usage''
                 = Some (JObject usage)
        \<and> JInt 57 = (case map_of usage ''prompt_tokens'' of Some v \<Rightarrow> v | None \<Rightarrow> JInt 0)
        \<and> JInt 3 = (case map_of usage ''completion_tokens'' of Some v \<Rightarrow> v | None \<Rightarrow> JInt 0))"
proof -
  have ev: "generate_structured loads0 ''Extract the total''
     (Response \<lparr>status_code = 200, json_body = Some completion1\<rparr>)
     = Inr \<lparr>raw_response = JString ''```json {} ```'', parsed_json = JObject [],
            tokens_in = JInt 57, tokens_out = JInt 3, finish_reason = JString ''stop''\<rparr>"
    by (simp add: generate_structured_def read_completion_def and_then_def parse_content_def
      completion1_def loads0_def strip_fence_def strip_def is_space_def startswith_def
      endswith_def)
  from token_counts_are_reported_or_zero [OF ev]
  show ?thesis using ev by (auto simp: completion1_def)
qed

section \<open>De-duplication of submissions\<close>

lemma find_append_new:
  "find P xs = None \<Longrightarrow> P x \<Longrightarrow> find P (xs @ [x]) = Some x"
  by (induction xs) (auto split: if_splits)

lemma submit_existing:
  assumes "length (file_content upload) \<le> storage_max_file_size_mb settings * 1024 * 1024"
    and "find (\<lambda>d. doc_content_hash d = hash_content (file_content upload)
                    \<and> doc_schema_version d = schema_version) (documents s) = Some existing"
  shows "submit_document settings hash_content correlation_id upload schema_version s =
           (Inr \<lparr>resp_document_id = doc_id existing, resp_correlation_id = correlation_id,
                 resp_status = doc_status existing\<rparr>, s, [])"
  using assms by (simp add: submit_document_def Let_def)

text \<open>
  C9. A submission whose content hash and schema version match a document of the store
  returns the id and the stored status of that document (the first such row), leaves the
  store as it is and starts no pipeline. Hence, when a submission has been answered, the
  same file submitted again with the same schema version is answered with the same
  document id, adds no document row and no raw content row, and starts no pipeline.
\<close>

theorem duplicate_submission_returns_existing_document:
  "(length (file_content upload) \<le> storage_max_file_size_mb settings * 1024 * 1024 \<longrightarrow>
    find (\<lambda>d. doc_content_hash d = hash_content (file_content upload)
               \<and> doc_schema_version d = schema_version) (documents s) = Some existing \<longrightarrow>
    submit_document settings hash_content correlation_id upload schema_version s =
      (Inr \<lparr>resp_document_id = doc_id existing, resp_correlation_id = correlation_id,
            resp_status = doc_status existing\<rparr>, s, []))
   \<and>
   (submit_document settings hash_content correlation_id upload schema_version s
      = (Inr r1, s1, tasks1) \<longrightarrow>
    (\<exists>r2. submit_document settings hash_content correlation_id2 upload schema_version s1
             = (Inr r2, s1, [])
         \<and> resp_document_id r2 = resp_document_id r1
         \<and> (\<exists>d \<in> set (documents s1). doc_id d = resp_document_id r1
                \<and> resp_status r2 = doc_status d)))"
proof (intro conjI impI)
  assume "length (file_content upload) \<le> storage_max_file_size_mb settings * 1024 * 1024"
    and "find (\<lambda>d. doc_content_hash d = hash_content (file_content upload)
               \<and> doc_schema_version d = schema_version) (documents s) = Some existing"
  then show "submit_document settings hash_content correlation_id upload schema_version s =
      (Inr \<lparr>resp_document_id = doc_id existing, resp_correlation_id = correlation_id,
            resp_status = doc_status existing\<rparr>, s, [])"
    by (rule submit_existing)
next
  let ?P = "\<lambda>d. doc_content_hash d = hash_content (file_content upload)
               \<and> doc_schema_version d = schema_version"
  assume first: "submit_document settings hash_content correlation_id upload schema_version s
      = (Inr r1, s1, tasks1)"
  have size: "length (file_content upload) \<le> storage_max_file_size_mb settings * 1024 * 1024"
    using first by (auto simp: submit_document_def Let_def split: if_splits)
  have "\<exists>d. find ?P (documents s1) = Some d \<and> doc_id d = resp_document_id r1"
  proof (cases "find ?P (documents s)")
    case (Some existing)
    then show ?thesis
      using first size by (auto simp: submit_document_def Let_def)
  next
    case None
    let ?new = "\<lparr>doc_id = next_key (map doc_id (documents s)),
                  doc_source = or_else (filename upload) ''upload'',
                  doc_content_hash = hash_content (file_content upload),
                  doc_schema_version = schema_version,
                  doc_status = ''pending'',
                  doc_file_size_bytes = length (file_content upload),
                  doc_mime_type = or_else (content_type upload) ''application/octet-stream''\<rparr>"
    have docs: "documents s1 = documents s @ [?new]"
      and id: "resp_document_id r1 = doc_id ?new"
      using first size None by (auto simp: submit_document_def Let_def)
    have "find ?P (documents s @ [?new]) = Some ?new"
      using None by (intro find_append_new) simp_all
    then show ?thesis using docs id by simp
  qed
  then obtain d where f: "find ?P (documents s1) = Some d"
    and d: "doc_id d = resp_document_id r1" by blast
  have mem: "d \<in> set (documents s1)"
    using f by (auto simp: find_Some_iff)
  have "submit_document settings hash_content correlation_id2 upload schema_version s1 =
           (Inr \<lparr>resp_document_id = doc_id d, resp_correlation_id = correlation_id2,
                 resp_status = doc_status d\<rparr>, s1, [])"
    using size f by (simp add: submit_existing)
  then show "\<exists>r2. submit_document settings hash_content correlation_id2 upload schema_version s1
             = (Inr r2, s1, [])
         \<and> resp_document_id r2 = resp_document_id r1
         \<and> (\<exists>d \<in> set (documents s1). doc_id d = resp_document_id r1
                \<and> resp_status r2 = doc_status d)"
    using d mem by auto
qed

theorem duplicate_submission_returns_existing_document_witness:
  "\<exists>r1 s1 r2.
     submit_document settings0 hash0 ''c-1'' hello_file ''invoice_v1'' empty_store
       = (Inr r1, s1, [(1, ''c-1'')])
   \<and> submit_document settings0 hash0 ''c-2'' hello_file ''invoice_v1'' s1 = (Inr r2, s1, [])
   \<and> resp_document_id r1 = 1 \<and> resp_document_id r2 = 1
   \<and> length (documents s1) = 1 \<and> length (raw_content s1) = 1"
proof -
  obtain r1 s1 where
    first: "submit_document settings0 hash0 ''c-1'' hello_file ''invoice_v1'' empty_store
              = (Inr r1, s1, [(1, ''c-1'')])"
    and id: "resp_document_id r1 = 1"
    and len: "length (documents s1) = 1" "length (raw_content s1) = 1"
    by (simp add: submit_document_def Let_def settings0_def hello_file_def empty_store_def
        next_key_def)
  from duplicate_submission_returns_existing_document
    [where settings = settings0 and hash_content = hash0 and correlation_id = "''c-1''"
       and upload = hello_file and schema_version = "''invoice_v1''" and s = empty_store
       and ?r1.0 = r1 and ?s1.0 = s1 and ?tasks1.0 = "[(1, ''c-1'')]"
       and ?correlation_id2.0 = "''c-2''"] first
  obtain r2 where
    "submit_document settings0 hash0 ''c-2'' hello_file ''invoice_v1'' s1 = (Inr r2, s1, [])"
    "resp_document_id r2 = resp_document_id r1"
    by blast
  then show ?thesis using first id len by auto
qed
end
